theory Spec2Isabelle
  imports Main "HOL-Library.Word"
begin

section \<open>The sitemap splitter (splitter.go)\<close>

text \<open>
  A shallow embedding of package \<open>sitemapsplitter\<close>. Go's \<open>int\<close> is taken as the 64-bit
  two's-complement integer of the usual 64-bit targets: products and sums wrap, and
  comparisons are signed. Strings are byte strings.
\<close>

type_synonym int64 = "64 word"

subsection \<open>The document model\<close>

text \<open>\<open>xml.Name\<close> of encoding/xml; its zero value has two empty strings.\<close>

record xml_Name =
  Space :: string
  Local :: string

definition zero_Name :: xml_Name where
  "zero_Name = \<lparr>Space = [], Local = []\<rparr>"

text \<open>
  The four structs. A field name that two structs share (\<open>XMLName\<close>, \<open>Loc\<close>,
  \<open>LastMod\<close>, \<open>XMLNS\<close>) keeps its name in the first and carries the struct's name in
  the others.
\<close>

record URL =
  URL_XMLName :: xml_Name
  Loc :: string
  LastMod :: string
  ChangeFreq :: string
  Priority :: string

record URLSet =
  URLSet_XMLName :: xml_Name
  XMLNS :: string
  XHTML :: string
  URLs :: "URL list"

record Sitemap =
  Sitemap_XMLName :: xml_Name
  Sitemap_Loc :: string
  Sitemap_LastMod :: string

record SitemapIndex =
  SitemapIndex_XMLName :: xml_Name
  SitemapIndex_XMLNS :: string
  Sitemaps :: "Sitemap list"

record SitemapSplitter =
  path :: string
  limit :: int64

text \<open>The anonymous struct collected in \<open>sitemapFiles\<close>.\<close>

record sitemap_file =
  BaseURL :: string
  Name :: string
  LastModDate :: string

subsection \<open>Errors\<close>

text \<open>
  The package returns \<open>fmt.Errorf\<close> values. Each constructor stands for the messages with
  one prefix; the text of the library's error that follows the prefix is left out:
  \<^item> \<open>InvalidConfiguration\<close>: "sitemap path is required", "limit must be greater than 0";
  \<^item> \<open>ReadError\<close>: "error reading sitemap file: ...";
  \<^item> \<open>ParseError\<close>: "error parsing XML: ...";
  \<^item> \<open>EmptyDocument\<close>: "no URLs found in sitemap";
  \<^item> \<open>URLParseError\<close>: "error parsing URL: ...";
  \<^item> \<open>SerializationError\<close>: "error marshaling XML: ...";
  \<^item> \<open>WriteError\<close>: "error writing sitemap file: ...", "error writing sitemap index: ...";
  \<^item> \<open>RuntimePanic\<close>: a slice expression out of range (a Go run-time panic, not an
    error value).
\<close>

datatype error =
    InvalidConfiguration string
  | ReadError
  | ParseError
  | EmptyDocument
  | URLParseError
  | SerializationError
  | WriteError
  | RuntimePanic

subsection \<open>The constructor\<close>

definition NewSitemapSplitter :: "string \<Rightarrow> int64 \<Rightarrow> error + SitemapSplitter" where
  "NewSitemapSplitter p l =
     (if p = [] then Inl (InvalidConfiguration ''sitemap path is required'')
      else if l \<le>s 0 then Inl (InvalidConfiguration ''limit must be greater than 0'')
      else Inr \<lparr>path = p, limit = l\<rparr>)"

subsection \<open>The world: files and the clock\<close>

text \<open>
  \<open>files\<close> gives for every path what \<open>ioutil.ReadFile\<close> returns there: the bytes, or
  \<open>None\<close> where reading fails (no file, no permission). \<open>wfail\<close> says which calls of
  \<open>os.WriteFile\<close> fail: \<open>None\<close> for a call that succeeds, and for one that fails what the
  call leaves at the path (the old file, a truncated one, nothing). \<open>os_WriteFile\<close> returns
  whether the call succeeded (\<open>err == nil\<close>). \<open>writes\<close> is the history of the calls that
  succeeded. \<open>clock\<close> lists the successive readings of \<open>time.Now()\<close>, already formatted by
  \<open>time.RFC3339\<close>, and \<open>ticks\<close> counts the readings taken.
\<close>

record world =
  files :: "string \<Rightarrow> string option"
  wfail :: "string \<Rightarrow> string \<Rightarrow> string option option"
  writes :: "(string \<times> string) list"
  clock :: "nat \<Rightarrow> string"
  ticks :: nat

definition ioutil_ReadFile :: "world \<Rightarrow> string \<Rightarrow> string option" where
  "ioutil_ReadFile w p = files w p"

definition os_WriteFile :: "world \<Rightarrow> string \<Rightarrow> string \<Rightarrow> bool \<times> world" where
  "os_WriteFile w p d =
     (case wfail w p d of
        None \<Rightarrow> (True, w\<lparr>files := (files w)(p := Some d), writes := writes w @ [(p, d)]\<rparr>)
      | Some left \<Rightarrow> (False, w\<lparr>files := (files w)(p := left)\<rparr>))"

definition time_Now_RFC3339 :: "world \<Rightarrow> string \<times> world" where
  "time_Now_RFC3339 w = (clock w (ticks w), w\<lparr>ticks := Suc (ticks w)\<rparr>)"

subsection \<open>Library functions the package calls\<close>

text \<open>
  encoding/xml, net/url and the path-cleaning functions of path/filepath are not part of
  the package. \<open>Split\<close> takes them as parameters, so what is proved of it holds for every
  behaviour of theirs. \<open>None\<close> is a call that returns an error. Of \<open>url.URL\<close> the package
  reads two fields.
\<close>

record url_URL =
  Scheme :: string
  Host :: string

record lib =
  xml_Unmarshal :: "string \<Rightarrow> URLSet option"
  xml_MarshalIndent_URLSet :: "URLSet \<Rightarrow> string \<Rightarrow> string \<Rightarrow> string option"
  xml_MarshalIndent_SitemapIndex :: "SitemapIndex \<Rightarrow> string \<Rightarrow> string \<Rightarrow> string option"
  url_Parse :: "string \<Rightarrow> url_URL option"
  filepath_Dir :: "string \<Rightarrow> string"
  filepath_Join :: "string \<Rightarrow> string \<Rightarrow> string"

text \<open>\<open>xml.Header\<close>: the XML declaration and a newline.\<close>

definition xml_Header :: string where
  "xml_Header = ''<?xml version='' @ [CHR 0x22] @ ''1.0'' @ [CHR 0x22] @
     '' encoding='' @ [CHR 0x22] @ ''UTF-8'' @ [CHR 0x22] @ ''?>'' @ [CHR 0x0A]"

subsection \<open>path/filepath: Base and Ext (Unix)\<close>

text \<open>
  \<open>filepath.Ext\<close> scans from the last byte towards the first and stops at a separator:
  \<^verbatim>\<open>for i := len(path) - 1; i >= 0 && !os.IsPathSeparator(path[i]); i-- {
    if path[i] == '.' { return path[i:] } }
  return ""\<close>
  The counter of \<open>Ext_loop\<close> is \<open>i + 1\<close>.
\<close>

fun Ext_loop :: "string \<Rightarrow> nat \<Rightarrow> string" where
  "Ext_loop p 0 = []"
| "Ext_loop p (Suc i) =
     (if p ! i = CHR ''/'' then []
      else if p ! i = CHR ''.'' then drop i p
      else Ext_loop p i)"

definition filepath_Ext :: "string \<Rightarrow> string" where
  "filepath_Ext p = Ext_loop p (length p)"

text \<open>
  \<open>filepath.Base\<close>: the empty path gives ".", trailing separators are stripped, the
  volume name is empty on Unix, the last element is what follows the last separator, and
  a path of separators only gives "/".
\<close>

fun strip_trailing :: "string \<Rightarrow> nat \<Rightarrow> string" where
  "strip_trailing p 0 = []"
| "strip_trailing p (Suc n) =
     (if p ! n = CHR ''/'' then strip_trailing p n else take (Suc n) p)"

fun last_sep :: "string \<Rightarrow> nat \<Rightarrow> nat" where
  "last_sep p 0 = 0"
| "last_sep p (Suc i) = (if p ! i = CHR ''/'' then Suc i else last_sep p i)"

definition filepath_Base :: "string \<Rightarrow> string" where
  "filepath_Base p =
     (if p = [] then ''.''
      else
        let p1 = strip_trailing p (length p);
            p2 = drop (last_sep p1 (length p1)) p1
        in if p2 = [] then ''/'' else p2)"

subsection \<open>fmt: the verb \%d\<close>

fun decimal :: "nat \<Rightarrow> string" where
  "decimal n =
     (if n < 10 then [''0123456789'' ! n]
      else decimal (n div 10) @ [''0123456789'' ! (n mod 10)])"

declare decimal.simps [simp del]

definition fmt_d :: "int \<Rightarrow> string" where
  "fmt_d k = (if k < 0 then CHR ''-'' # decimal (nat (- k)) else decimal (nat k))"

subsection \<open>Slices\<close>

text \<open>
  \<open>len\<close> of a slice as an \<open>int\<close>. \<open>slice xs lo hi\<close> is \<open>xs[lo:hi]\<close>, which panics unless
  \<open>0 \<le> lo \<le> hi \<le> cap(xs)\<close>; the capacity is taken to be the length (the loop never
  asks for more than the length).
\<close>

definition len :: "'a list \<Rightarrow> int64" where
  "len xs = word_of_nat (length xs)"

definition slice :: "'a list \<Rightarrow> int64 \<Rightarrow> int64 \<Rightarrow> error + 'a list" where
  "slice xs lo hi =
     (if 0 \<le>s lo \<and> lo \<le>s hi \<and> hi \<le>s len xs
      then Inr (take (nat (sint hi) - nat (sint lo)) (drop (nat (sint lo)) xs))
      else Inl RuntimePanic)"

text \<open>\<open>s[:hi]\<close> on a string, with \<open>hi\<close> a difference of two lengths.\<close>

definition string_prefix :: "string \<Rightarrow> int \<Rightarrow> error + string" where
  "string_prefix s hi =
     (if 0 \<le> hi \<and> hi \<le> int (length s) then Inr (take (nat hi) s) else Inl RuntimePanic)"

subsection \<open>Split\<close>

text \<open>
  Three expressions of the loop body: the document of a chunk (lines 107 to 111), the
  name of its file, \<open>fmt.Sprintf("%s-%d.xml", baseFilename, i+1)\<close>, and its base URL,
  \<open>fmt.Sprintf("%s://%s/", parsedURL.Scheme, parsedURL.Host)\<close>.
\<close>

definition chunk_URLSet :: "URL list \<Rightarrow> URLSet" where
  "chunk_URLSet chunk =
     \<lparr>URLSet_XMLName = zero_Name,
      XMLNS = ''http://www.sitemaps.org/schemas/sitemap/0.9'',
      XHTML = ''http://www.w3.org/1999/xhtml'',
      URLs = chunk\<rparr>"

definition sitemapName_of :: "string \<Rightarrow> int64 \<Rightarrow> string" where
  "sitemapName_of baseFilename i = baseFilename @ ''-'' @ fmt_d (sint (i + 1)) @ ''.xml''"

definition baseURL_of :: "url_URL \<Rightarrow> string" where
  "baseURL_of parsedURL = Scheme parsedURL @ ''://'' @ Host parsedURL @ ''/''"

text \<open>
  What the loop body does with a chunk (lines 106 to 152): it names the chunk's file,
  derives the base URL and the last-modification date from the chunk's last entry,
  records the three in \<open>sitemapFiles\<close>, and marshals and writes the chunk's document.
  \<open>Continue\<close> goes on to the next iteration, \<open>Break\<close> leaves the loop, \<open>Return\<close> leaves
  \<open>Split\<close> with an error.
\<close>

datatype 'a step = Continue 'a | Break | Return error

definition process_chunk ::
  "lib \<Rightarrow> string \<Rightarrow> string \<Rightarrow> int64 \<Rightarrow> URL list \<Rightarrow> sitemap_file list \<Rightarrow> world
     \<Rightarrow> sitemap_file list step \<times> world" where
  "process_chunk L dir baseFilename i chunk sitemapFiles w =
     (let newURLSet = chunk_URLSet chunk;
          sitemapName = sitemapName_of baseFilename i;
          lastURL = last chunk
      in case url_Parse L (Loc lastURL) of
           None \<Rightarrow> (Return URLParseError, w)
         | Some parsedURL \<Rightarrow>
             let baseURL = baseURL_of parsedURL;
                 (lastMod, w1) =
                   (if LastMod lastURL = [] then time_Now_RFC3339 w
                    else (LastMod lastURL, w));
                 sitemapFiles' = sitemapFiles @
                   [\<lparr>BaseURL = baseURL, Name = sitemapName, LastModDate = lastMod\<rparr>]
             in case xml_MarshalIndent_URLSet L newURLSet [] ''  '' of
                  None \<Rightarrow> (Return SerializationError, w1)
                | Some xmlData \<Rightarrow>
                    let outputPath = filepath_Join L dir sitemapName
                    in case os_WriteFile w1 outputPath (xml_Header @ xmlData) of
                         (False, w2) \<Rightarrow> (Return WriteError, w2)
                       | (True, w2) \<Rightarrow> (Continue sitemapFiles', w2))"

text \<open>
  One execution of the body of the chunk loop (lines 95 to 152): the bounds, the slice,
  the \<open>break\<close> on an empty chunk, and the rest.
\<close>

definition loop_body ::
  "lib \<Rightarrow> string \<Rightarrow> string \<Rightarrow> int64 \<Rightarrow> URL list \<Rightarrow> int64 \<Rightarrow> sitemap_file list \<Rightarrow> world
     \<Rightarrow> sitemap_file list step \<times> world" where
  "loop_body L dir baseFilename lim urls i sitemapFiles w =
     (let start = i * lim;
          end0 = (i + 1) * lim;
          end1 = (if len urls <s end0 then len urls else end0)
      in case slice urls start end1 of
           Inl e \<Rightarrow> (Return e, w)
         | Inr chunk \<Rightarrow>
             if length chunk = 0 then (Break, w)
             else process_chunk L dir baseFilename i chunk sitemapFiles w)"

lemma loop_body_progress:
  assumes "loop_body L dir b lim urls i acc w = (Continue acc', w')"
    and "i * lim <s len urls"
  shows "nat (sint (len urls) - sint ((i + 1) * lim)) < nat (sint (len urls) - sint (i * lim))"
proof -
  let ?e = "if len urls <s (i + 1) * lim then len urls else (i + 1) * lim"
  obtain chunk where sl: "slice urls (i * lim) ?e = Inr chunk" and ne: "chunk \<noteq> []"
    using assms(1)
    by (auto simp: loop_body_def Let_def process_chunk_def split: sum.splits if_splits)
  from sl have lo: "0 \<le> sint (i * lim)" and
    ch: "chunk = take (nat (sint ?e) - nat (sint (i * lim))) (drop (nat (sint (i * lim))) urls)"
    by (auto simp: slice_def word_sle_eq split: if_splits)
  from ne ch have "nat (sint (i * lim)) < nat (sint ?e)"
    by (cases "nat (sint (i * lim)) < nat (sint ?e)") auto
  with lo have lt: "sint (i * lim) < sint ?e" by linarith
  from assms(2) have c: "sint (i * lim) < sint (len urls)" by (simp add: word_sless_alt)
  show ?thesis
  proof (cases "len urls <s (i + 1) * lim")
    case True
    then have "sint (len urls) < sint ((i + 1) * lim)" by (simp add: word_sless_alt)
    with c show ?thesis by linarith
  next
    case False
    with lt have "sint (i * lim) < sint ((i + 1) * lim)" by simp
    with c show ?thesis by linarith
  qed
qed

text \<open>
  The chunk loop, \<open>for i := 0; i*s.limit < len(urlset.URLs); i++\<close>: the result is the
  error that ended \<open>Split\<close>, or \<open>sitemapFiles\<close> when the loop is left by its condition or
  by \<open>break\<close>.
\<close>

function split_loop ::
  "lib \<Rightarrow> string \<Rightarrow> string \<Rightarrow> int64 \<Rightarrow> URL list \<Rightarrow> int64 \<Rightarrow> sitemap_file list \<Rightarrow> world
     \<Rightarrow> (error + sitemap_file list) \<times> world" where
  "split_loop L dir baseFilename lim urls i sitemapFiles w =
     (if i * lim <s len urls then
        (case loop_body L dir baseFilename lim urls i sitemapFiles w of
           (Continue sitemapFiles', w') \<Rightarrow>
             split_loop L dir baseFilename lim urls (i + 1) sitemapFiles' w'
         | (Break, w') \<Rightarrow> (Inr sitemapFiles, w')
         | (Return e, w') \<Rightarrow> (Inl e, w'))
      else (Inr sitemapFiles, w))"
  by pat_completeness auto
termination
proof (relation "measure (\<lambda>(L, dir, b, lim, urls, i, acc, w).
        nat (sint (len urls) - sint (i * lim)))", goal_cases)
  case 1
  show ?case by simp
next
  case 2
  then show ?case
    by (simp only: in_measure prod.case) (metis loop_body_progress)
qed

declare split_loop.simps [simp del]

text \<open>The loop that fills the index, \<open>for _, file := range sitemapFiles\<close>.\<close>

fun index_loop :: "sitemap_file list \<Rightarrow> Sitemap list \<Rightarrow> Sitemap list" where
  "index_loop [] acc = acc"
| "index_loop (file # rest) acc =
     index_loop rest
       (acc @ [\<lparr>Sitemap_XMLName = zero_Name,
                Sitemap_Loc = BaseURL file @ Name file,
                Sitemap_LastMod = LastModDate file\<rparr>])"

text \<open>
  Lines 84 and 85: \<open>filename[:len(filename)-len(filepath.Ext(filename))]\<close>.
\<close>

definition baseFilename_of :: "string \<Rightarrow> error + string" where
  "baseFilename_of p =
     (let filename = filepath_Base p
      in string_prefix filename
           (int (length filename) - int (length (filepath_Ext filename))))"

definition Split :: "lib \<Rightarrow> SitemapSplitter \<Rightarrow> world \<Rightarrow> error option \<times> world" where
  "Split L s w =
     (case ioutil_ReadFile w (path s) of
        None \<Rightarrow> (Some ReadError, w)
      | Some data \<Rightarrow>
          (case xml_Unmarshal L data of
             None \<Rightarrow> (Some ParseError, w)
           | Some urlset \<Rightarrow>
               if length (URLs urlset) = 0 then (Some EmptyDocument, w)
               else
                 let dir = filepath_Dir L (path s)
                 in case baseFilename_of (path s) of
                      Inl e \<Rightarrow> (Some e, w)
                    | Inr baseFilename \<Rightarrow>
                        (case split_loop L dir baseFilename (limit s) (URLs urlset) 0 [] w of
                           (Inl e, w1) \<Rightarrow> (Some e, w1)
                         | (Inr sitemapFiles, w1) \<Rightarrow>
                             let sitemapIndex =
                                   \<lparr>SitemapIndex_XMLName = zero_Name,
                                    SitemapIndex_XMLNS =
                                      ''http://www.sitemaps.org/schemas/sitemap/0.9'',
                                    Sitemaps = index_loop sitemapFiles []\<rparr>
                             in case xml_MarshalIndent_SitemapIndex L sitemapIndex [] ''  '' of
                                  None \<Rightarrow> (Some SerializationError, w1)
                                | Some xmlData \<Rightarrow>
                                    let indexPath = filepath_Join L dir ''sitemap-index.xml''
                                    in case os_WriteFile w1 indexPath (xml_Header @ xmlData) of
                                         (False, w2) \<Rightarrow> (Some WriteError, w2)
                                       | (True, w2) \<Rightarrow> (None, w2))))"

subsection \<open>The chunk loop over a list of chunks\<close>

text \<open>
  For the proofs: the chunk loop with the chunks given as a list, \<open>k\<close> the index of the
  first. \<open>split_loop_run_chunks\<close> shows that \<open>split_loop\<close> is this function on the chunks
  the slice expression cuts.
\<close>

fun run_chunks ::
  "lib \<Rightarrow> string \<Rightarrow> string \<Rightarrow> nat \<Rightarrow> URL list list \<Rightarrow> sitemap_file list \<Rightarrow> world
     \<Rightarrow> (error + sitemap_file list) \<times> world" where
  "run_chunks L dir b k [] acc w = (Inr acc, w)"
| "run_chunks L dir b k (c # cs) acc w =
     (case process_chunk L dir b (word_of_nat k) c acc w of
        (Continue acc', w') \<Rightarrow> run_chunks L dir b (Suc k) cs acc' w'
      | (Break, w') \<Rightarrow> (Inr acc, w')
      | (Return e, w') \<Rightarrow> (Inl e, w'))"

subsection \<open>net/url: Parse\<close>

text \<open>
  \<open>url.Parse\<close> of the Go standard library (net/url as of Go 1.21), as far as it decides
  the error and the two fields \<open>Split\<close> reads: \<open>Parse\<close> cuts the fragment off and checks its
  escapes; \<open>parse\<close> refuses control bytes, splits off the scheme, drops the query, treats
  a rootless path after a scheme as opaque, refuses a colon in the first segment of a
  relative path, parses the authority after \<open>//\<close> and checks the escapes of the path.
  \<open>Split\<close> does not depend on it: it is one value of the parameter \<open>url_Parse\<close>. In
  \<open>parseHost\<close> this release accepts any bracketed host whose escapes and port are well
  formed; later releases also require the bracketed part to be an IPv6 literal. No
  location used below has a bracket.
\<close>

definition is_letter :: "char \<Rightarrow> bool" where
  "is_letter c \<longleftrightarrow>
     (97 \<le> (of_char c :: nat) \<and> (of_char c :: nat) \<le> 122) \<or>
     (65 \<le> (of_char c :: nat) \<and> (of_char c :: nat) \<le> 90)"

definition is_digit :: "char \<Rightarrow> bool" where
  "is_digit c \<longleftrightarrow> 48 \<le> (of_char c :: nat) \<and> (of_char c :: nat) \<le> 57"

definition stringContainsCTLByte :: "string \<Rightarrow> bool" where
  "stringContainsCTLByte s \<longleftrightarrow> (\<exists>b\<in>set s. (of_char b :: nat) < 32 \<or> (of_char b :: nat) = 127)"

definition strings_ToLower :: "string \<Rightarrow> string" where
  "strings_ToLower s =
     map (\<lambda>c. if 65 \<le> (of_char c :: nat) \<and> (of_char c :: nat) \<le> 90
                then char_of ((of_char c :: nat) + 32) else c) s"

definition strings_Cut :: "string \<Rightarrow> char \<Rightarrow> string \<times> string" where
  "strings_Cut s sep = (takeWhile (\<lambda>c. c \<noteq> sep) s, drop 1 (dropWhile (\<lambda>c. c \<noteq> sep) s))"

definition strings_HasPrefix :: "string \<Rightarrow> string \<Rightarrow> bool" where
  "strings_HasPrefix s p \<longleftrightarrow> take (length p) s = p"

fun strings_Index :: "string \<Rightarrow> string \<Rightarrow> nat option" where
  "strings_Index [] sub = (if sub = [] then Some 0 else None)"
| "strings_Index (c # s) sub =
     (if strings_HasPrefix (c # s) sub then Some 0
      else map_option Suc (strings_Index s sub))"

fun strings_LastIndex :: "string \<Rightarrow> char \<Rightarrow> nat option" where
  "strings_LastIndex [] c = None"
| "strings_LastIndex (x # s) c =
     (case strings_LastIndex s c of
        Some i \<Rightarrow> Some (Suc i)
      | None \<Rightarrow> if x = c then Some 0 else None)"

fun getScheme_loop :: "string \<Rightarrow> nat \<Rightarrow> string \<Rightarrow> (string \<times> string) option" where
  "getScheme_loop rawURL i [] = Some ([], rawURL)"
| "getScheme_loop rawURL i (c # cs) =
     (if is_letter c then getScheme_loop rawURL (Suc i) cs
      else if is_digit c \<or> c = CHR ''+'' \<or> c = CHR ''-'' \<or> c = CHR ''.'' then
        (if i = 0 then Some ([], rawURL) else getScheme_loop rawURL (Suc i) cs)
      else if c = CHR '':'' then
        (if i = 0 then None else Some (take i rawURL, drop (Suc i) rawURL))
      else Some ([], rawURL))"

definition getScheme :: "string \<Rightarrow> (string \<times> string) option" where
  "getScheme rawURL = getScheme_loop rawURL 0 rawURL"

datatype encoding = encodePath | encodeUserPassword | encodeHost | encodeZone | encodeFragment

definition ishex :: "char \<Rightarrow> bool" where
  "ishex c \<longleftrightarrow> is_digit c \<or>
     (97 \<le> (of_char c :: nat) \<and> (of_char c :: nat) \<le> 102) \<or>
     (65 \<le> (of_char c :: nat) \<and> (of_char c :: nat) \<le> 70)"

definition unhex :: "char \<Rightarrow> nat" where
  "unhex c =
     (if is_digit c then of_char c - 48
      else if 97 \<le> (of_char c :: nat) \<and> (of_char c :: nat) \<le> 102 then of_char c - 97 + 10
      else if 65 \<le> (of_char c :: nat) \<and> (of_char c :: nat) \<le> 70 then of_char c - 65 + 10
      else 0)"

definition shouldEscape_host :: "char \<Rightarrow> bool" where
  "shouldEscape_host c \<longleftrightarrow>
     \<not> (is_letter c \<or> is_digit c \<or> c \<in> set ''!$&()*+,;=:[]<>-_.~'' \<or>
        c = CHR 0x27 \<or> c = CHR 0x22)"

fun unescape :: "string \<Rightarrow> encoding \<Rightarrow> string option" where
  "unescape [] mode = Some []"
| "unescape (c # s) mode =
     (if c = CHR ''%'' then
        (case s of
           h1 # h2 # s' \<Rightarrow>
             if \<not> ishex h1 \<or> \<not> ishex h2 then None
             else if mode = encodeHost \<and> unhex h1 < 8 \<and> [h1, h2] \<noteq> ''25'' then None
             else if mode = encodeZone \<and> [h1, h2] \<noteq> ''25'' \<and>
                     char_of (unhex h1 * 16 + unhex h2) \<noteq> CHR '' '' \<and>
                     shouldEscape_host (char_of (unhex h1 * 16 + unhex h2)) then None
             else map_option ((#) (char_of (unhex h1 * 16 + unhex h2))) (unescape s' mode)
         | _ \<Rightarrow> None)
      else if (mode = encodeHost \<or> mode = encodeZone) \<and> (of_char c :: nat) < 128 \<and>
              shouldEscape_host c then None
      else map_option ((#) c) (unescape s mode))"

definition validOptionalPort :: "string \<Rightarrow> bool" where
  "validOptionalPort port \<longleftrightarrow>
     (port = [] \<or> (hd port = CHR '':'' \<and> (\<forall>b\<in>set (tl port). is_digit b)))"

definition validUserinfo :: "string \<Rightarrow> bool" where
  "validUserinfo s \<longleftrightarrow>
     (\<forall>r\<in>set s. is_letter r \<or> is_digit r \<or> r \<in> set ''-._:~!$&()*+,;=%@'' \<or> r = CHR 0x27)"

definition parseHost :: "string \<Rightarrow> string option" where
  "parseHost host =
     (if strings_HasPrefix host ''['' then
        (case strings_LastIndex host CHR '']'' of
           None \<Rightarrow> None
         | Some i \<Rightarrow>
             if \<not> validOptionalPort (drop (Suc i) host) then None
             else
               (case strings_Index (take i host) ''%25'' of
                  Some zone \<Rightarrow>
                    (case unescape (take zone host) encodeHost of
                       None \<Rightarrow> None
                     | Some host1 \<Rightarrow>
                         (case unescape (drop zone (take i host)) encodeZone of
                            None \<Rightarrow> None
                          | Some host2 \<Rightarrow>
                              (case unescape (drop i host) encodeHost of
                                 None \<Rightarrow> None
                               | Some host3 \<Rightarrow> Some (host1 @ host2 @ host3))))
                | None \<Rightarrow> unescape host encodeHost))
      else
        (case strings_LastIndex host CHR '':'' of
           Some i \<Rightarrow>
             if \<not> validOptionalPort (drop i host) then None else unescape host encodeHost
         | None \<Rightarrow> unescape host encodeHost))"

definition parseAuthority :: "string \<Rightarrow> string option" where
  "parseAuthority authority =
     (case strings_LastIndex authority CHR ''@'' of
        None \<Rightarrow> parseHost authority
      | Some i \<Rightarrow>
          (case parseHost (drop (Suc i) authority) of
             None \<Rightarrow> None
           | Some host \<Rightarrow>
               let userinfo = take i authority in
               if \<not> validUserinfo userinfo then None
               else if CHR '':'' \<notin> set userinfo then
                 (case unescape userinfo encodeUserPassword of
                    None \<Rightarrow> None | Some u \<Rightarrow> Some host)
               else
                 let (username, password) = strings_Cut userinfo CHR '':'' in
                 (case unescape username encodeUserPassword of
                    None \<Rightarrow> None
                  | Some u \<Rightarrow>
                      (case unescape password encodeUserPassword of
                         None \<Rightarrow> None | Some p \<Rightarrow> Some host))))"

definition url_parse :: "string \<Rightarrow> url_URL option" where
  "url_parse rawURL =
     (if stringContainsCTLByte rawURL then None
      else if rawURL = ''*'' then Some \<lparr>Scheme = [], Host = []\<rparr>
      else
        (case getScheme rawURL of
           None \<Rightarrow> None
         | Some (scheme0, rest0) \<Rightarrow>
             let scheme = strings_ToLower scheme0;
                 rest =
                   (if rest0 \<noteq> [] \<and> last rest0 = CHR ''?'' \<and> count_list rest0 CHR ''?'' = 1
                    then butlast rest0
                    else fst (strings_Cut rest0 CHR ''?''))
             in
               if \<not> strings_HasPrefix rest ''/'' \<and> scheme \<noteq> [] then
                 Some \<lparr>Scheme = scheme, Host = []\<rparr>
               else if \<not> strings_HasPrefix rest ''/'' \<and>
                       CHR '':'' \<in> set (fst (strings_Cut rest CHR ''/'')) then None
               else if (scheme \<noteq> [] \<or> \<not> strings_HasPrefix rest ''///'') \<and>
                       strings_HasPrefix rest ''//'' then
                 (let authority0 = drop 2 rest;
                      (authority, rest') =
                        (case strings_Index authority0 ''/'' of
                           Some i \<Rightarrow> (take i authority0, drop i authority0)
                         | None \<Rightarrow> (authority0, []))
                  in case parseAuthority authority of
                       None \<Rightarrow> None
                     | Some host \<Rightarrow>
                         (case unescape rest' encodePath of
                            None \<Rightarrow> None
                          | Some p \<Rightarrow> Some \<lparr>Scheme = scheme, Host = host\<rparr>))
               else
                 (case unescape rest encodePath of
                    None \<Rightarrow> None
                  | Some p \<Rightarrow> Some \<lparr>Scheme = scheme, Host = []\<rparr>)))"

definition net_url_Parse :: "string \<Rightarrow> url_URL option" where
  "net_url_Parse rawURL =
     (let (u, frag) = strings_Cut rawURL CHR ''#''
      in case url_parse u of
           None \<Rightarrow> None
         | Some url \<Rightarrow>
             if frag = [] then Some url
             else (case unescape frag encodeFragment of
                     None \<Rightarrow> None
                   | Some f \<Rightarrow> Some url))"

subsection \<open>An example\<close>

text \<open>
  A library and a world to run \<open>Split\<close> on: the source file unmarshals to the given
  entries, every location parses to the scheme \<open>https\<close> and the host \<open>example.com\<close>,
  a document is marshalled to its locations, one per line, and every write succeeds.
\<close>

definition example_lib :: "URL list \<Rightarrow> lib" where
  "example_lib us =
     \<lparr>xml_Unmarshal =
        (\<lambda>d. Some \<lparr>URLSet_XMLName = zero_Name, XMLNS = [], XHTML = [], URLs = us\<rparr>),
      xml_MarshalIndent_URLSet =
        (\<lambda>u prefix indent. Some (concat (map (\<lambda>x. Loc x @ [CHR 0x0A]) (URLs u)))),
      xml_MarshalIndent_SitemapIndex =
        (\<lambda>x prefix indent. Some (concat (map (\<lambda>m. Sitemap_Loc m @ [CHR 0x0A]) (Sitemaps x)))),
      url_Parse = (\<lambda>loc. Some \<lparr>Scheme = ''https'', Host = ''example.com''\<rparr>),
      filepath_Dir = (\<lambda>p. ''.''),
      filepath_Join = (\<lambda>d f. d @ ''/'' @ f)\<rparr>"

definition example_world :: world where
  "example_world =
     \<lparr>files = (\<lambda>p. if p = ''sitemap.xml'' then Some ''<urlset/>'' else None),
      wfail = (\<lambda>p d. None),
      writes = [],
      clock = (\<lambda>t. ''2024-01-01T00:00:00Z''),
      ticks = 0\<rparr>"

definition example_url :: "nat \<Rightarrow> URL" where
  "example_url k =
     \<lparr>URL_XMLName = zero_Name,
      Loc = ''https://example.com/page-'' @ decimal k,
      LastMod = ''2024-01-'' @ decimal k,
      ChangeFreq = [],
      Priority = []\<rparr>"

section \<open>Properties\<close>

subsection \<open>No overflow: the loop's arithmetic on lists that fit in memory\<close>

lemma sint_of_nat64: "n < 2 ^ 63 \<Longrightarrow> sint (word_of_nat n :: int64) = int n"
proof -
  assume a: "n < 2 ^ 63"
  have "sint (word_of_nat n :: int64) = signed_take_bit 63 (int n)"
    using sint_sbintrunc' [of "int n", where 'a = 64] by simp
  also have "\<dots> = int n"
    using a by (intro signed_take_bit_int_eq_self) auto
  finally show ?thesis .
qed

lemma lim_of_nat: "0 < sint (lim :: int64) \<Longrightarrow> lim = word_of_nat (nat (sint lim))"
  by simp

lemma sint_index_mult:
  assumes "0 < sint (lim :: int64)" and "k * nat (sint lim) < 2 ^ 63"
  shows "sint (word_of_nat k * lim) = int (k * nat (sint lim))"
proof -
  have "word_of_nat k * lim = (word_of_nat (k * nat (sint lim)) :: int64)"
    using assms(1) by simp
  then show ?thesis using sint_of_nat64 [OF assms(2)] by simp
qed

lemma sint_len: "length xs < 2 ^ 62 \<Longrightarrow> sint (len xs) = int (length xs)"
  unfolding len_def by (rule sint_of_nat64) simp

lemma index_product_bound:
  assumes "0 < l" and "l < 2 ^ 63" and "n < 2 ^ 62" and "k = 0 \<or> (k - 1) * l < n"
  shows "k * l < (2::nat) ^ 63"
proof (cases "k \<le> 1")
  case True
  then have "k * l \<le> l" by (cases k) auto
  from this assms(2) show ?thesis by (rule le_less_trans)
next
  case False
  then obtain j where k: "k = Suc (Suc j)" by (cases k; cases "k - 1") auto
  with assms(4) have b: "Suc j * l < n" by simp
  have "l \<le> Suc j * l" by simp
  then have "k * l \<le> 2 * (Suc j * l)" using k by simp
  also have "\<dots> < 2 * n" using b by simp
  also have "\<dots> < 2 ^ 63" using assms(3) by simp
  finally show ?thesis .
qed

lemma chunk_slice:
  fixes lim :: int64
  defines "l \<equiv> nat (sint lim)"
  assumes pos: "0 < sint lim" and n: "length urls < 2 ^ 62" and k: "k * l < length urls"
  shows "word_of_nat k * lim <s len urls"
    and "slice urls (word_of_nat k * lim)
           (if len urls <s (word_of_nat k + 1) * lim then len urls else (word_of_nat k + 1) * lim)
         = Inr (take l (drop (k * l) urls))"
    and "take l (drop (k * l) urls) \<noteq> []"
proof -
  have l0: "0 < l" and l63: "l < 2 ^ 63"
    using pos sint_lt [of lim] by (auto simp: l_def)
  have b1: "k * l < 2 ^ 63"
    using k n by simp
  have b2: "Suc k * l < 2 ^ 63"
    by (rule index_product_bound [OF l0 l63 n]) (use k in simp)
  have s1: "sint (word_of_nat k * lim) = int (k * l)"
    unfolding l_def by (rule sint_index_mult [OF pos]) (use b1 in \<open>simp add: l_def\<close>)
  have e: "(word_of_nat k + 1 :: int64) = word_of_nat (Suc k)" by simp
  have "sint (word_of_nat (Suc k) * lim) = int (Suc k * l)"
    unfolding l_def by (rule sint_index_mult [OF pos]) (use b2 in \<open>simp add: l_def\<close>)
  then have s2: "sint ((word_of_nat k + 1) * lim) = int (Suc k * l)"
    by (simp only: e)
  have sl: "sint (len urls) = int (length urls)" by (rule sint_len [OF n])
  show "word_of_nat k * lim <s len urls"
    using k by (simp add: word_sless_alt s1 sl del: of_nat_mult)
  show "take l (drop (k * l) urls) \<noteq> []"
    using k l0 by simp
  show "slice urls (word_of_nat k * lim)
           (if len urls <s (word_of_nat k + 1) * lim then len urls else (word_of_nat k + 1) * lim)
         = Inr (take l (drop (k * l) urls))"
  proof (cases "length urls < Suc k * l")
    case True
    then have c: "len urls <s (word_of_nat k + 1) * lim"
      by (simp add: word_sless_alt s2 sl del: of_nat_mult mult_Suc)
    have "take (length urls - k * l) (drop (k * l) urls) = take l (drop (k * l) urls)"
      using True by simp
    then show ?thesis
      using k c by (simp add: slice_def word_sle_eq s1 sl del: of_nat_mult)
  next
    case False
    then have c: "\<not> len urls <s (word_of_nat k + 1) * lim"
      by (simp add: word_sless_alt s2 sl del: of_nat_mult mult_Suc)
    have "Suc k * l - k * l = l" by simp
    then show ?thesis
      using False c by (simp add: slice_def word_sle_eq s1 s2 sl del: mult_Suc of_nat_mult)
  qed
qed

lemma loop_exit:
  fixes lim :: int64
  defines "l \<equiv> nat (sint lim)"
  assumes pos: "0 < sint lim" and n: "length urls < 2 ^ 62"
    and k: "length urls \<le> k * l" and k': "k = 0 \<or> (k - 1) * l < length urls"
  shows "\<not> word_of_nat k * lim <s len urls"
proof -
  have l0: "0 < l" and l63: "l < 2 ^ 63"
    using pos sint_lt [of lim] by (auto simp: l_def)
  have b1: "k * l < 2 ^ 63"
    by (rule index_product_bound [OF l0 l63 n k'])
  have s1: "sint (word_of_nat k * lim) = int (k * l)"
    unfolding l_def by (rule sint_index_mult [OF pos]) (use b1 in \<open>simp add: l_def\<close>)
  have sl: "sint (len urls) = int (length urls)" by (rule sint_len [OF n])
  show ?thesis
    using k by (simp add: word_sless_alt s1 sl del: of_nat_mult)
qed

lemma less_count_iff:
  "0 < l \<Longrightarrow> k < (n + l - 1) div l \<longleftrightarrow> k * l < (n::nat)"
proof -
  assume l: "0 < l"
  have "k < (n + l - 1) div l \<longleftrightarrow> Suc k \<le> (n + l - 1) div l" by auto
  also have "\<dots> \<longleftrightarrow> Suc k * l \<le> n + l - 1"
    using l by (simp only: less_eq_div_iff_mult_less_eq)
  also have "\<dots> \<longleftrightarrow> k * l < n" using l by auto
  finally show ?thesis .
qed

lemma split_loop_run_chunks:
  fixes lim :: int64
  defines "l \<equiv> nat (sint lim)"
  assumes pos: "0 < sint lim" and n: "length urls < 2 ^ 62"
    and k: "k \<le> (length urls + l - 1) div l"
  shows "split_loop L dir b lim urls (word_of_nat k) acc w =
         run_chunks L dir b k
           (map (\<lambda>j. take l (drop (j * l) urls)) [k..<(length urls + l - 1) div l]) acc w"
  using k
proof (induction "(length urls + l - 1) div l - k" arbitrary: k acc w)
  case 0
  have l0: "0 < l" using pos by (simp add: l_def)
  from 0 have keq: "k = (length urls + l - 1) div l" by simp
  then have "\<not> k * l < length urls" using less_count_iff [OF l0, of k "length urls"] by simp
  then have a: "length urls \<le> k * l" by simp
  have b: "k = 0 \<or> (k - 1) * l < length urls"
  proof (cases k)
    case (Suc j)
    then have "j < (length urls + l - 1) div l" using keq by simp
    then show ?thesis using less_count_iff [OF l0, of j "length urls"] Suc by simp
  qed simp
  have "\<not> word_of_nat k * lim <s len urls"
    using loop_exit [OF pos n] a b unfolding l_def by blast
  then show ?case
    using keq by (subst split_loop.simps) simp
next
  case (Suc m)
  have l0: "0 < l" using pos by (simp add: l_def)
  from Suc(2) have klt: "k < (length urls + l - 1) div l" by simp
  then have kl: "k * l < length urls" using less_count_iff [OF l0] by simp
  note cs = chunk_slice [OF pos n, folded l_def, OF kl]
  have up: "[k..<(length urls + l - 1) div l] = k # [Suc k..<(length urls + l - 1) div l]"
    using klt by (simp add: upt_conv_Cons)
  have e: "(word_of_nat k + 1 :: int64) = word_of_nat (Suc k)" by simp
  have IH: "\<And>acc w. split_loop L dir b lim urls (word_of_nat (Suc k)) acc w =
         run_chunks L dir b (Suc k)
           (map (\<lambda>j. take l (drop (j * l) urls)) [Suc k..<(length urls + l - 1) div l]) acc w"
    using Suc(1) [of "Suc k"] Suc(2) klt by simp
  have lb: "loop_body L dir b lim urls (word_of_nat k) acc w =
        process_chunk L dir b (word_of_nat k) (take l (drop (k * l) urls)) acc w"
    using cs(2) kl l0 by (auto simp: loop_body_def Let_def min_def)
  show ?case
    apply (subst split_loop.simps)
    apply (simp only: cs(1) if_True lb up list.map run_chunks.simps e IH)
    done
qed


subsection \<open>The loop body and the loop over a list of chunks\<close>

lemma process_chunk_parse_error:
  "url_Parse L (Loc (last c)) = None \<Longrightarrow>
   process_chunk L dir b i c acc w = (Return URLParseError, w)"
  by (simp add: process_chunk_def Let_def)

lemma process_chunk_not_Break: "process_chunk L dir b i c acc w \<noteq> (Break, w')"
  by (auto simp: process_chunk_def Let_def os_WriteFile_def time_Now_RFC3339_def
      split: sum.splits option.splits prod.splits if_splits bool.splits)

lemma process_chunk_Continue:
  assumes "process_chunk L dir b i c acc w = (Continue acc', w')"
  obtains u x where
    "url_Parse L (Loc (last c)) = Some u"
    "xml_MarshalIndent_URLSet L (chunk_URLSet c) [] ''  '' = Some x"
    "wfail w (filepath_Join L dir (sitemapName_of b i)) (xml_Header @ x) = None"
    "acc' = acc @ [\<lparr>BaseURL = baseURL_of u, Name = sitemapName_of b i,
        LastModDate = (if LastMod (last c) = [] then clock w (ticks w) else LastMod (last c))\<rparr>]"
    "writes w' = writes w @ [(filepath_Join L dir (sitemapName_of b i), xml_Header @ x)]"
    "files w' = (files w)(filepath_Join L dir (sitemapName_of b i) := Some (xml_Header @ x))"
    "ticks w' = (if LastMod (last c) = [] then Suc (ticks w) else ticks w)"
    "clock w' = clock w" "wfail w' = wfail w"
  using assms
  by (auto simp: process_chunk_def Let_def os_WriteFile_def time_Now_RFC3339_def
      split: sum.splits option.splits prod.splits if_splits bool.splits)

lemma process_chunk_Return:
  assumes "process_chunk L dir b i c acc w = (Return e, w')"
  shows "writes w' = writes w" and "clock w' = clock w" and "wfail w' = wfail w"
    and "p \<noteq> filepath_Join L dir (sitemapName_of b i) \<Longrightarrow> files w' p = files w p"
    and "e = URLParseError \<or> e = SerializationError \<or> e = WriteError"
  using assms
  by (auto simp: process_chunk_def Let_def os_WriteFile_def time_Now_RFC3339_def
      split: sum.splits option.splits prod.splits if_splits bool.splits)

lemma run_chunks_append:
  "run_chunks L dir b k (cs @ ds) acc w =
     (case run_chunks L dir b k cs acc w of
        (Inr acc', w') \<Rightarrow> run_chunks L dir b (k + length cs) ds acc' w'
      | (Inl e, w') \<Rightarrow> (Inl e, w'))"
proof (induction cs arbitrary: k acc w)
  case Nil
  show ?case by simp
next
  case (Cons c cs)
  show ?case
  proof (cases "process_chunk L dir b (word_of_nat k) c acc w")
    case (Pair r w1)
    then show ?thesis
      using Cons [of "Suc k"] process_chunk_not_Break [of L dir b "word_of_nat k" c acc w w1]
      by (cases r) (auto split: prod.splits sum.splits)
  qed
qed

lemma run_chunks_snoc:
  "run_chunks L dir b k (cs @ [c]) acc w =
     (case run_chunks L dir b k cs acc w of
        (Inr acc', w') \<Rightarrow>
          (case process_chunk L dir b (word_of_nat (k + length cs)) c acc' w' of
             (Continue acc'', w'') \<Rightarrow> (Inr acc'', w'')
           | (Break, w'') \<Rightarrow> (Inr acc', w'')
           | (Return e, w'') \<Rightarrow> (Inl e, w''))
      | (Inl e, w') \<Rightarrow> (Inl e, w'))"
  by (simp add: run_chunks_append split: prod.splits sum.splits step.splits)

lemma run_chunks_snoc_Inr:
  assumes "run_chunks L dir b k (cs @ [c]) acc w = (Inr fs, w')"
  obtains fs0 w0 where "run_chunks L dir b k cs acc w = (Inr fs0, w0)"
    and "process_chunk L dir b (word_of_nat (k + length cs)) c fs0 w0 = (Continue fs, w')"
  using assms process_chunk_not_Break
  by (auto simp: run_chunks_snoc split: prod.splits sum.splits step.splits)

text \<open>
  A run of the loop that ends without an error: every chunk's last location parsed and
  every chunk's document was marshalled and written, in order; the clock was read once
  for every chunk whose last entry has no \<open>lastmod\<close>.
\<close>

lemma run_chunks_Inr:
  assumes "run_chunks L dir b k cs acc w = (Inr fs, w')"
  shows "length fs = length acc + length cs \<and> take (length acc) fs = acc \<and>
     length (writes w') = length (writes w) + length cs \<and>
     take (length (writes w)) (writes w') = writes w \<and>
     ticks w' = ticks w + length (filter (\<lambda>c. LastMod (last c) = []) cs) \<and>
     clock w' = clock w \<and> wfail w' = wfail w \<and>
     (\<forall>j<length cs. \<exists>u x.
        url_Parse L (Loc (last (cs ! j))) = Some u \<and>
        xml_MarshalIndent_URLSet L (chunk_URLSet (cs ! j)) [] ''  '' = Some x \<and>
        fs ! (length acc + j) =
          \<lparr>BaseURL = baseURL_of u, Name = sitemapName_of b (word_of_nat (k + j)),
           LastModDate =
             (if LastMod (last (cs ! j)) = []
              then clock w (ticks w + length (filter (\<lambda>c. LastMod (last c) = []) (take j cs)))
              else LastMod (last (cs ! j)))\<rparr> \<and>
        writes w' ! (length (writes w) + j) =
          (filepath_Join L dir (sitemapName_of b (word_of_nat (k + j))), xml_Header @ x))"
  using assms
proof (induction cs arbitrary: fs w' rule: rev_induct)
  case Nil
  then show ?case by simp
next
  case (snoc c cs)
  from snoc.prems obtain fs0 w0 where
    r: "run_chunks L dir b k cs acc w = (Inr fs0, w0)" and
    p: "process_chunk L dir b (word_of_nat (k + length cs)) c fs0 w0 = (Continue fs, w')"
    by (rule run_chunks_snoc_Inr)
  note IH = snoc.IH [OF r]
  from p obtain u x where
    u: "url_Parse L (Loc (last c)) = Some u" and
    x: "xml_MarshalIndent_URLSet L (chunk_URLSet c) [] ''  '' = Some x" and
    fs: "fs = fs0 @ [\<lparr>BaseURL = baseURL_of u,
        Name = sitemapName_of b (word_of_nat (k + length cs)),
        LastModDate = (if LastMod (last c) = [] then clock w0 (ticks w0) else LastMod (last c))\<rparr>]" and
    wr: "writes w' = writes w0 @
        [(filepath_Join L dir (sitemapName_of b (word_of_nat (k + length cs))), xml_Header @ x)]" and
    tk: "ticks w' = (if LastMod (last c) = [] then Suc (ticks w0) else ticks w0)" and
    ck: "clock w' = clock w0" and wf: "wfail w' = wfail w0"
    by (rule process_chunk_Continue)
  have 1: "length fs = length acc + length (cs @ [c])" using IH fs by simp
  have 2: "take (length acc) fs = acc" using IH fs by simp
  have 3: "length (writes w') = length (writes w) + length (cs @ [c])" using IH wr by simp
  have 4: "take (length (writes w)) (writes w') = writes w" using IH wr by simp
  have 5: "ticks w' = ticks w + length (filter (\<lambda>c. LastMod (last c) = []) (cs @ [c]))"
    using IH tk by simp
  have 6: "clock w' = clock w" "wfail w' = wfail w" using IH ck wf by simp_all
  have 7: "\<exists>u x.
        url_Parse L (Loc (last ((cs @ [c]) ! j))) = Some u \<and>
        xml_MarshalIndent_URLSet L (chunk_URLSet ((cs @ [c]) ! j)) [] ''  '' = Some x \<and>
        fs ! (length acc + j) =
          \<lparr>BaseURL = baseURL_of u, Name = sitemapName_of b (word_of_nat (k + j)),
           LastModDate =
             (if LastMod (last ((cs @ [c]) ! j)) = []
              then clock w (ticks w + length (filter (\<lambda>c. LastMod (last c) = []) (take j (cs @ [c]))))
              else LastMod (last ((cs @ [c]) ! j)))\<rparr> \<and>
        writes w' ! (length (writes w) + j) =
          (filepath_Join L dir (sitemapName_of b (word_of_nat (k + j))), xml_Header @ x)"
    if j: "j < length (cs @ [c])" for j
  proof (cases "j < length cs")
    case True
    with IH obtain u' x' where
      a: "url_Parse L (Loc (last (cs ! j))) = Some u'"
         "xml_MarshalIndent_URLSet L (chunk_URLSet (cs ! j)) [] ''  '' = Some x'"
         "fs0 ! (length acc + j) =
          \<lparr>BaseURL = baseURL_of u', Name = sitemapName_of b (word_of_nat (k + j)),
           LastModDate =
             (if LastMod (last (cs ! j)) = []
              then clock w (ticks w + length (filter (\<lambda>c. LastMod (last c) = []) (take j cs)))
              else LastMod (last (cs ! j)))\<rparr>"
         "writes w0 ! (length (writes w) + j) =
          (filepath_Join L dir (sitemapName_of b (word_of_nat (k + j))), xml_Header @ x')"
      by blast
    have "fs ! (length acc + j) = fs0 ! (length acc + j)"
      using True IH fs by (simp add: nth_append)
    moreover have "writes w' ! (length (writes w) + j) = writes w0 ! (length (writes w) + j)"
      using True IH wr by (simp add: nth_append)
    ultimately show ?thesis using a True by (simp add: nth_append)
  next
    case False
    with j have je: "j = length cs" by simp
    have "fs ! (length acc + j) = last fs" using IH fs je by (simp add: nth_append)
    moreover have "writes w' ! (length (writes w) + j) = last (writes w')"
      using IH wr je by (simp add: nth_append)
    ultimately show ?thesis using u x fs wr je IH by simp
  qed
  from 1 2 3 4 5 6 7 show ?case by blast
qed

lemma run_chunks_Inl:
  assumes "run_chunks L dir b k cs acc w = (Inl e, w')"
  shows "\<exists>j<length cs. \<exists>fs0 w0.
           run_chunks L dir b k (take j cs) acc w = (Inr fs0, w0) \<and>
           process_chunk L dir b (word_of_nat (k + j)) (cs ! j) fs0 w0 = (Return e, w')"
  using assms
proof (induction cs arbitrary: e w' rule: rev_induct)
  case Nil
  then show ?case by simp
next
  case (snoc c cs)
  show ?case
  proof (cases "run_chunks L dir b k cs acc w")
    case (Pair r w1)
    show ?thesis
    proof (cases r)
      case (Inl e1)
      with Pair snoc.prems have "e1 = e" "w1 = w'" by (simp_all add: run_chunks_snoc)
      with Pair Inl snoc.IH obtain j fs0 w0 where
        "j < length cs" "run_chunks L dir b k (take j cs) acc w = (Inr fs0, w0)"
        "process_chunk L dir b (word_of_nat (k + j)) (cs ! j) fs0 w0 = (Return e, w')"
        by blast
      then show ?thesis
        by (intro exI [of _ j]) (auto simp: nth_append)
    next
      case (Inr fs1)
      with Pair snoc.prems
      have "process_chunk L dir b (word_of_nat (k + length cs)) c fs1 w1 = (Return e, w')"
        by (auto simp: run_chunks_snoc split: prod.splits step.splits)
      with Pair Inr show ?thesis
        by (intro exI [of _ "length cs"]) auto
    qed
  qed
qed

lemma run_chunks_take_Inr:
  assumes "run_chunks L dir b k cs acc w = (Inr fs, w')" and "j \<le> length cs"
  shows "\<exists>fs0 w0. run_chunks L dir b k (take j cs) acc w = (Inr fs0, w0)"
proof -
  obtain r w1 where p: "run_chunks L dir b k (take j cs) acc w = (r, w1)"
    by fastforce
  show ?thesis
  proof (cases r)
    case (Inl e)
    with p run_chunks_append [of L dir b k "take j cs" "drop j cs" acc w]
    have "run_chunks L dir b k cs acc w = (Inl e, w1)" by simp
    with assms(1) show ?thesis by simp
  next
    case (Inr fs0)
    with p show ?thesis by blast
  qed
qed

lemma Split_run_chunks:
  fixes s :: SitemapSplitter
  defines "l \<equiv> nat (sint (limit s))"
  assumes rd: "ioutil_ReadFile w (path s) = Some data"
    and um: "xml_Unmarshal L data = Some urlset"
    and ne: "URLs urlset \<noteq> []"
    and pos: "0 < sint (limit s)"
    and n: "length (URLs urlset) < 2 ^ 62"
    and b: "baseFilename_of (path s) = Inr b"
  shows "Split L s w =
     (case run_chunks L (filepath_Dir L (path s)) b 0
             (map (\<lambda>j. take l (drop (j * l) (URLs urlset)))
                [0..<(length (URLs urlset) + l - 1) div l]) [] w of
        (Inl e, w1) \<Rightarrow> (Some e, w1)
      | (Inr sitemapFiles, w1) \<Rightarrow>
          (case xml_MarshalIndent_SitemapIndex L
                  \<lparr>SitemapIndex_XMLName = zero_Name,
                   SitemapIndex_XMLNS = ''http://www.sitemaps.org/schemas/sitemap/0.9'',
                   Sitemaps = index_loop sitemapFiles []\<rparr> [] ''  '' of
             None \<Rightarrow> (Some SerializationError, w1)
           | Some xmlData \<Rightarrow>
               (case os_WriteFile w1 (filepath_Join L (filepath_Dir L (path s)) ''sitemap-index.xml'')
                       (xml_Header @ xmlData) of
                  (False, w2) \<Rightarrow> (Some WriteError, w2)
                | (True, w2) \<Rightarrow> (None, w2))))"
proof -
  have "split_loop L (filepath_Dir L (path s)) b (limit s) (URLs urlset) (word_of_nat 0) [] w =
      run_chunks L (filepath_Dir L (path s)) b 0
             (map (\<lambda>j. take l (drop (j * l) (URLs urlset)))
                [0..<(length (URLs urlset) + l - 1) div l]) [] w"
    unfolding l_def by (rule split_loop_run_chunks [OF pos n]) simp
  then show ?thesis
    using rd um ne b
    by (auto simp: Split_def Let_def split: prod.splits sum.splits option.splits bool.splits)
qed

lemma index_loop_eq:
  "index_loop fs acc = acc @ map (\<lambda>f. \<lparr>Sitemap_XMLName = zero_Name,
      Sitemap_Loc = BaseURL f @ Name f, Sitemap_LastMod = LastModDate f\<rparr>) fs"
  by (induction fs arbitrary: acc) simp_all

lemma take_drop_nths:
  "take l (drop a xs) = map (\<lambda>j. xs ! j) [a..<min (a + l) (length xs)]"
proof (rule nth_equalityI)
  show "length (take l (drop a xs)) = length (map (\<lambda>j. xs ! j) [a..<min (a + l) (length xs)])"
    by auto
next
  fix i assume "i < length (take l (drop a xs))"
  then have i: "i < l" "a + i < length xs" by auto
  then have b: "a + i < min (a + l) (length xs)" by (simp add: min_def)
  then have "i < length [a..<min (a + l) (length xs)]" by (simp add: min_def split: if_splits)
  then have "map (\<lambda>j. xs ! j) [a..<min (a + l) (length xs)] ! i =
      xs ! ([a..<min (a + l) (length xs)] ! i)"
    by (rule nth_map)
  also have "\<dots> = xs ! (a + i)" using b by (simp only: nth_upt)
  finally have "map (\<lambda>j. xs ! j) [a..<min (a + l) (length xs)] ! i = xs ! (a + i)" .
  then show "take l (drop a xs) ! i = map (\<lambda>j. xs ! j) [a..<min (a + l) (length xs)] ! i"
    using i by simp
qed

lemma concat_chunks:
  "concat (map (\<lambda>j. take l (drop (j * l) xs)) [0..<m]) = take (m * l) xs"
proof (induction m)
  case (Suc m)
  have "take (m * l) xs @ take l (drop (m * l) xs) = take (m * l + l) xs"
    by (simp add: take_add)
  with Suc show ?case by (simp add: add.commute)
qed simp

lemma count_covers: "0 < l \<Longrightarrow> (n::nat) \<le> (n + l - 1) div l * l"
proof -
  assume l: "0 < l"
  have "\<not> ((n + l - 1) div l) * l < n"
    using less_count_iff [OF l, of "(n + l - 1) div l" n] by simp
  then show ?thesis by simp
qed

lemma process_chunk_good:
  assumes "url_Parse L (Loc (last c)) = Some u"
    and "xml_MarshalIndent_URLSet L (chunk_URLSet c) [] ''  '' = Some x"
    and "wfail w (filepath_Join L dir (sitemapName_of b i)) (xml_Header @ x) = None"
  shows "\<exists>acc' w'. process_chunk L dir b i c acc w = (Continue acc', w')"
  using assms
  by (auto simp: process_chunk_def Let_def os_WriteFile_def time_Now_RFC3339_def
      split: prod.splits)

lemma run_chunks_good:
  assumes "\<forall>j<length cs. \<exists>u x.
      url_Parse L (Loc (last (cs ! j))) = Some u \<and>
      xml_MarshalIndent_URLSet L (chunk_URLSet (cs ! j)) [] ''  '' = Some x \<and>
      wfail w (filepath_Join L dir (sitemapName_of b (word_of_nat (k + j)))) (xml_Header @ x) = None"
  shows "\<exists>fs w'. run_chunks L dir b k cs acc w = (Inr fs, w')"
  using assms
proof (induction cs rule: rev_induct)
  case Nil
  show ?case by simp
next
  case (snoc c cs)
  have "\<forall>j<length cs. \<exists>u x.
      url_Parse L (Loc (last (cs ! j))) = Some u \<and>
      xml_MarshalIndent_URLSet L (chunk_URLSet (cs ! j)) [] ''  '' = Some x \<and>
      wfail w (filepath_Join L dir (sitemapName_of b (word_of_nat (k + j)))) (xml_Header @ x) = None"
  proof (intro allI impI)
    fix j assume j: "j < length cs"
    then have "j < length (cs @ [c])" by simp
    with snoc.prems have "\<exists>u x.
      url_Parse L (Loc (last ((cs @ [c]) ! j))) = Some u \<and>
      xml_MarshalIndent_URLSet L (chunk_URLSet ((cs @ [c]) ! j)) [] ''  '' = Some x \<and>
      wfail w (filepath_Join L dir (sitemapName_of b (word_of_nat (k + j)))) (xml_Header @ x) = None"
      by blast
    with j show "\<exists>u x.
      url_Parse L (Loc (last (cs ! j))) = Some u \<and>
      xml_MarshalIndent_URLSet L (chunk_URLSet (cs ! j)) [] ''  '' = Some x \<and>
      wfail w (filepath_Join L dir (sitemapName_of b (word_of_nat (k + j)))) (xml_Header @ x) = None"
      by (simp add: nth_append)
  qed
  from snoc.IH [OF this] obtain fs0 w0 where
    r: "run_chunks L dir b k cs acc w = (Inr fs0, w0)" by blast
  from run_chunks_Inr [OF r] have wf: "wfail w0 = wfail w" by simp
  have "length cs < length (cs @ [c])" by simp
  with snoc.prems obtain u x where
    "url_Parse L (Loc (last ((cs @ [c]) ! length cs))) = Some u"
    "xml_MarshalIndent_URLSet L (chunk_URLSet ((cs @ [c]) ! length cs)) [] ''  '' = Some x"
    "wfail w (filepath_Join L dir (sitemapName_of b (word_of_nat (k + length cs))))
       (xml_Header @ x) = None"
    by blast
  then have "\<exists>acc' w'. process_chunk L dir b (word_of_nat (k + length cs)) c fs0 w0 =
      (Continue acc', w')"
    using wf by (intro process_chunk_good) simp_all
  then show ?case using r by (auto simp: run_chunks_snoc)
qed

lemma run_chunks_world:
  assumes "run_chunks L dir b k cs acc w = (Inr fs, w')"
  shows "w' = w\<lparr>files := foldl (\<lambda>f (p, d). f(p := Some d)) (files w)
                   (drop (length (writes w)) (writes w')),
               writes := writes w @ drop (length (writes w)) (writes w'),
               ticks := ticks w + length (filter (\<lambda>c. LastMod (last c) = []) cs)\<rparr>"
  using assms
proof (induction cs arbitrary: fs w' rule: rev_induct)
  case Nil
  then show ?case by simp
next
  case (snoc c cs)
  from snoc.prems obtain fs0 w0 where
    r: "run_chunks L dir b k cs acc w = (Inr fs0, w0)" and
    p: "process_chunk L dir b (word_of_nat (k + length cs)) c fs0 w0 = (Continue fs, w')"
    by (rule run_chunks_snoc_Inr)
  note IH = snoc.IH [OF r]
  note R = run_chunks_Inr [OF r]
  from p obtain x where
    wr: "writes w' = writes w0 @
        [(filepath_Join L dir (sitemapName_of b (word_of_nat (k + length cs))), xml_Header @ x)]" and
    fl: "files w' = (files w0)
        (filepath_Join L dir (sitemapName_of b (word_of_nat (k + length cs))) :=
           Some (xml_Header @ x))" and
    tk: "ticks w' = (if LastMod (last c) = [] then Suc (ticks w0) else ticks w0)" and
    ck: "clock w' = clock w0" and wf: "wfail w' = wfail w0"
    by (rule process_chunk_Continue)
  have w0: "writes w0 = writes w @ drop (length (writes w)) (writes w0)"
    using R by (metis append_take_drop_id)
  have d: "drop (length (writes w)) (writes w') = drop (length (writes w)) (writes w0) @
        [(filepath_Join L dir (sitemapName_of b (word_of_nat (k + length cs))), xml_Header @ x)]"
    using wr R by simp
  have f0: "files w0 = foldl (\<lambda>f (p, d). f(p := Some d)) (files w)
                   (drop (length (writes w)) (writes w0))"
    using IH by (metis (no_types, lifting) world.select_convs(1) world.surjective world.update_convs(1,3,5))
  have t0: "ticks w0 = ticks w + length (filter (\<lambda>c. LastMod (last c) = []) cs)"
    using R by simp
  have F: "files w' = foldl (\<lambda>f (p, d). f(p := Some d)) (files w)
                   (drop (length (writes w)) (writes w'))"
    by (simp only: d foldl_append foldl_Cons foldl_Nil prod.case fl f0 [symmetric])
  have W: "writes w' = writes w @ drop (length (writes w)) (writes w')"
  proof -
    have "take (length (writes w)) (writes w') = writes w" using wr R by simp
    then show ?thesis by (metis append_take_drop_id)
  qed
  have T: "ticks w' = ticks w + length (filter (\<lambda>c. LastMod (last c) = []) (cs @ [c]))"
    using tk t0 by simp
  have C: "clock w' = clock w" "wfail w' = wfail w" using ck wf R by simp_all
  show ?case
  proof (rule world.equality)
    show "files w' = files (w\<lparr>files := foldl (\<lambda>f (p, d). f(p := Some d)) (files w)
                   (drop (length (writes w)) (writes w')),
               writes := writes w @ drop (length (writes w)) (writes w'),
               ticks := ticks w + length (filter (\<lambda>c. LastMod (last c) = []) (cs @ [c]))\<rparr>)"
      by (simp only: F [symmetric]) simp
  qed (use W T C in simp_all)
qed

lemma run_chunks_writes:
  assumes "run_chunks L dir b k cs acc w = (Inr fs, w')"
  shows "writes w' = writes w @
     map (\<lambda>j. (filepath_Join L dir (sitemapName_of b (word_of_nat (k + j))),
               xml_Header @ the (xml_MarshalIndent_URLSet L (chunk_URLSet (cs ! j)) [] ''  '')))
       [0..<length cs]"
proof (rule nth_equalityI)
  note R = run_chunks_Inr [OF assms]
  show "length (writes w') = length (writes w @
     map (\<lambda>j. (filepath_Join L dir (sitemapName_of b (word_of_nat (k + j))),
               xml_Header @ the (xml_MarshalIndent_URLSet L (chunk_URLSet (cs ! j)) [] ''  '')))
       [0..<length cs])"
    using R by simp
  fix i assume i: "i < length (writes w')"
  show "writes w' ! i = (writes w @
     map (\<lambda>j. (filepath_Join L dir (sitemapName_of b (word_of_nat (k + j))),
               xml_Header @ the (xml_MarshalIndent_URLSet L (chunk_URLSet (cs ! j)) [] ''  '')))
       [0..<length cs]) ! i"
  proof (cases "i < length (writes w)")
    case True
    have "writes w' ! i = take (length (writes w)) (writes w') ! i" using True by simp
    also have "\<dots> = writes w ! i" using R by simp
    finally show ?thesis using True by (simp add: nth_append)
  next
    case False
    define j where "j = i - length (writes w)"
    have ij: "i = length (writes w) + j" using False by (simp add: j_def)
    have jl: "j < length cs" using i R ij by simp
    with R obtain x where
      "xml_MarshalIndent_URLSet L (chunk_URLSet (cs ! j)) [] ''  '' = Some x"
      "writes w' ! (length (writes w) + j) =
          (filepath_Join L dir (sitemapName_of b (word_of_nat (k + j))), xml_Header @ x)"
      by blast
    then show ?thesis using jl by (simp add: ij nth_append)
  qed
qed

lemma run_chunks_files_other:
  assumes "run_chunks L dir b k cs acc w = (Inr fs, w')"
    and "\<forall>j<length cs. p \<noteq> filepath_Join L dir (sitemapName_of b (word_of_nat (k + j)))"
  shows "files w' p = files w p"
  using assms
proof (induction cs arbitrary: fs w' rule: rev_induct)
  case Nil
  then show ?case by simp
next
  case (snoc c cs)
  from snoc.prems(1) obtain fs0 w0 where
    r: "run_chunks L dir b k cs acc w = (Inr fs0, w0)" and
    pc: "process_chunk L dir b (word_of_nat (k + length cs)) c fs0 w0 = (Continue fs, w')"
    by (rule run_chunks_snoc_Inr)
  from snoc.prems(2) have
    a: "\<forall>j<length cs. p \<noteq> filepath_Join L dir (sitemapName_of b (word_of_nat (k + j)))" and
    b: "p \<noteq> filepath_Join L dir (sitemapName_of b (word_of_nat (k + length cs)))"
    by simp_all
  from pc obtain x where
    "files w' = (files w0)
        (filepath_Join L dir (sitemapName_of b (word_of_nat (k + length cs))) :=
           Some (xml_Header @ x))"
    by (rule process_chunk_Continue)
  with b have "files w' p = files w0 p" by simp
  with snoc.IH [OF r a] show ?case by simp
qed

subsection \<open>File names\<close>

lemma Ext_loop_drop: "n \<le> length p \<Longrightarrow> \<exists>i\<le>length p. Ext_loop p n = drop i p"
proof (induction n)
  case 0
  show ?case by (rule exI [of _ "length p"]) simp
next
  case (Suc n)
  then obtain i where "i \<le> length p" "Ext_loop p n = drop i p" by auto
  then show ?case
    using Suc.prems
    by (cases "p ! n = CHR ''/''"; cases "p ! n = CHR ''.''")
       (auto intro: exI [of _ "length p"] exI [of _ n])
qed

lemma filepath_Ext_suffix: "\<exists>i\<le>length p. filepath_Ext p = drop i p"
  unfolding filepath_Ext_def by (rule Ext_loop_drop) simp

lemma length_filepath_Ext: "length (filepath_Ext p) \<le> length p"
  using filepath_Ext_suffix [of p] by auto

lemma Ext_loop_no_dot:
  "n \<le> length p \<Longrightarrow> CHR ''.'' \<notin> set p \<Longrightarrow> Ext_loop p n = []"
proof (induction n)
  case (Suc n)
  then have "p ! n \<in> set p" by simp
  with Suc.prems have "p ! n \<noteq> CHR ''.''" by metis
  with Suc show ?case by simp
qed simp

lemma Ext_loop_leading_dot:
  "n \<le> length r \<Longrightarrow> CHR ''.'' \<notin> set r \<Longrightarrow> CHR ''/'' \<notin> set r \<Longrightarrow>
   Ext_loop (CHR ''.'' # r) (Suc n) = CHR ''.'' # r"
proof (induction n)
  case (Suc n)
  then have "r ! n \<in> set r" by simp
  with Suc.prems have "r ! n \<noteq> CHR ''.''" "r ! n \<noteq> CHR ''/''" by metis+
  with Suc show ?case by simp
qed simp

lemma baseFilename_of_eq:
  "baseFilename_of p =
     Inr (take (length (filepath_Base p) - length (filepath_Ext (filepath_Base p)))
            (filepath_Base p))"
  using length_filepath_Ext [of "filepath_Base p"]
  by (simp add: baseFilename_of_def string_prefix_def Let_def nat_diff_distrib' flip: of_nat_diff)

lemma base_split:
  "take (length f - length (filepath_Ext f)) f @ filepath_Ext f = f"
proof -
  obtain i where i: "i \<le> length f" "filepath_Ext f = drop i f"
    using filepath_Ext_suffix by blast
  then show ?thesis by simp
qed





subsection \<open>The constructor\<close>

text \<open>
  C4. \<open>NewSitemapSplitter\<close> fails with \<open>InvalidConfiguration\<close> exactly when the path is
  empty or the limit is not positive, it fails in no other way, and for a non-empty path
  and a limit of at least 1 it returns the configuration that holds this path and this
  limit. It is a function of its two arguments alone: it reads and writes no \<open>world\<close>, and
  the value it returns is a record that \<open>Split\<close> takes by value and only reads.
\<close>

theorem NewSitemapSplitter_validates:
  "((\<exists>m. NewSitemapSplitter p l = Inl (InvalidConfiguration m)) \<longleftrightarrow> (p = [] \<or> sint l \<le> 0)) \<and>
   (p \<noteq> [] \<and> 1 \<le> sint l \<longrightarrow> NewSitemapSplitter p l = Inr \<lparr>path = p, limit = l\<rparr>) \<and>
   (\<forall>e. NewSitemapSplitter p l = Inl e \<longrightarrow> (\<exists>m. e = InvalidConfiguration m))"
  by (auto simp: NewSitemapSplitter_def word_sle_eq)

theorem NewSitemapSplitter_validates_witness:
  "NewSitemapSplitter ''./example/sitemap.xml'' 10 =
     Inr \<lparr>path = ''./example/sitemap.xml'', limit = 10\<rparr>"
  using NewSitemapSplitter_validates [of "''./example/sitemap.xml''" 10]
  by simp

lemma sitemapName_of_nat:
  assumes "i < 2 ^ 62"
  shows "sitemapName_of b (word_of_nat i) = b @ ''-'' @ decimal (Suc i) @ ''.xml''"
proof -
  have e: "(word_of_nat i + 1 :: int64) = word_of_nat (Suc i)" by simp
  have "Suc i < 2 ^ 63" using assms by simp
  then have "sint (word_of_nat (Suc i) :: int64) = int (Suc i)" by (rule sint_of_nat64)
  then have "sint (word_of_nat i + 1 :: int64) = int (Suc i)" by (simp only: e)
  moreover have "fmt_d (int (Suc i)) = decimal (Suc i)"
    unfolding fmt_d_def by (simp only: nat_int) simp
  ultimately show ?thesis by (simp only: sitemapName_of_def)
qed

lemma less_count_less: "0 < l \<Longrightarrow> i < (n + l - 1) div l \<Longrightarrow> i < (n::nat)"
proof -
  assume l: "0 < l" and "i < (n + l - 1) div l"
  then have b: "i * l < n" using less_count_iff [OF l] by simp
  have a: "i \<le> i * l" using l by (cases l) auto
  from a b show ?thesis by (rule le_less_trans)
qed

lemma filter_take_map_upt:
  "j \<le> m \<Longrightarrow> filter P (take j (map f [0..<m])) = map f (filter (\<lambda>i. P (f i)) [0..<j])"
  by (simp add: take_map filter_map comp_def)

lemma os_WriteFile_True:
  assumes "os_WriteFile w p d = (True, w')"
  shows "wfail w p d = None" and "files w' = (files w)(p := Some d)"
    and "writes w' = writes w @ [(p, d)]" and "clock w' = clock w" and "ticks w' = ticks w"
    and "wfail w' = wfail w"
  using assms by (auto simp: os_WriteFile_def split: option.splits)


lemma Split_None:
  fixes s :: SitemapSplitter
  defines "l \<equiv> nat (sint (limit s))"
  assumes rd: "ioutil_ReadFile w (path s) = Some data"
    and um: "xml_Unmarshal L data = Some urlset"
    and pos: "0 < sint (limit s)"
    and n: "length (URLs urlset) < 2 ^ 62"
    and b: "baseFilename_of (path s) = Inr b"
    and ok: "Split L s w = (None, w')"
  obtains fs w1 x where
    "run_chunks L (filepath_Dir L (path s)) b 0
       (map (\<lambda>j. take l (drop (j * l) (URLs urlset)))
          [0..<(length (URLs urlset) + l - 1) div l]) [] w = (Inr fs, w1)"
    "xml_MarshalIndent_SitemapIndex L
       \<lparr>SitemapIndex_XMLName = zero_Name,
        SitemapIndex_XMLNS = ''http://www.sitemaps.org/schemas/sitemap/0.9'',
        Sitemaps = index_loop fs []\<rparr> [] ''  '' = Some x"
    "os_WriteFile w1 (filepath_Join L (filepath_Dir L (path s)) ''sitemap-index.xml'')
       (xml_Header @ x) = (True, w')"
proof -
  have ne: "URLs urlset \<noteq> []"
    using rd um ok by (auto simp: Split_def)
  from Split_run_chunks [OF rd um ne pos n b] ok that show ?thesis
    unfolding l_def
    by (auto split: prod.splits sum.splits option.splits bool.splits)
qed


lemma count_le: "0 < l \<Longrightarrow> (n + l - 1) div l \<le> (n::nat)"
proof (rule ccontr)
  assume l: "0 < l" and "\<not> (n + l - 1) div l \<le> n"
  then have "n < (n + l - 1) div l" by simp
  from less_count_less [OF l this] show False by simp
qed



subsection \<open>The base file name\<close>

text \<open>
  C10. The slice that strips the extension never goes out of bounds: for every path the
  extension \<open>filepath.Ext\<close> returns is a suffix of the file name \<open>filepath.Base\<close>
  returns, so \<open>baseFilename_of\<close> returns a string and never panics, and the file name is
  the base followed by the extension. A file name without a dot is its own base, and the
  chunk files are named after the whole file name; a file name that is only an extension
  (a dot followed by neither a dot nor a separator, such as ".xml") has the empty base,
  and the chunk files are named "-<n>.xml", where \<open>n\<close> is \<open>i + 1\<close>.
\<close>

theorem baseFilename_in_bounds:
  fixes p :: string
  defines "filename \<equiv> filepath_Base p"
  shows "\<exists>base. baseFilename_of p = Inr base \<and>
     filename = base @ filepath_Ext filename \<and>
     (CHR ''.'' \<notin> set filename \<longrightarrow>
        base = filename \<and>
        (\<forall>i. sitemapName_of base i = filename @ ''-'' @ fmt_d (sint (i + 1)) @ ''.xml'')) \<and>
     (filepath_Ext filename = filename \<longrightarrow>
        base = [] \<and> (\<forall>i. sitemapName_of base i = ''-'' @ fmt_d (sint (i + 1)) @ ''.xml'')) \<and>
     (\<forall>r. filename = CHR ''.'' # r \<and> CHR ''.'' \<notin> set r \<and> CHR ''/'' \<notin> set r \<longrightarrow>
        filepath_Ext filename = filename)"
proof -
  let ?base = "take (length filename - length (filepath_Ext filename)) filename"
  have 1: "baseFilename_of p = Inr ?base"
    unfolding filename_def by (rule baseFilename_of_eq)
  have 2: "filename = ?base @ filepath_Ext filename"
    by (rule base_split [symmetric])
  have 3: "?base = filename" if "CHR ''.'' \<notin> set filename"
    using that Ext_loop_no_dot [of "length filename" filename]
    by (simp add: filepath_Ext_def)
  have 4: "?base = []" if "filepath_Ext filename = filename"
    using that by simp
  have 5: "filepath_Ext filename = filename"
    if "filename = CHR ''.'' # r \<and> CHR ''.'' \<notin> set r \<and> CHR ''/'' \<notin> set r" for r
    using that Ext_loop_leading_dot [of "length r" r]
    by (simp add: filepath_Ext_def)
  show ?thesis
    apply (rule exI [of _ ?base])
    using 1 2 3 4 5 by (simp add: sitemapName_of_def)
qed

theorem baseFilename_in_bounds_witness:
  "baseFilename_of ''.xml'' = Inr [] \<and> baseFilename_of ''./example/sitemap'' = Inr ''sitemap''"
proof -
  have a: "filepath_Base ''.xml'' = ''.xml''" by code_simp
  have b: "filepath_Base ''./example/sitemap'' = ''sitemap''" by code_simp
  have c: "filepath_Ext ''.xml'' = ''.xml''" by code_simp
  from baseFilename_in_bounds [of "''.xml''"] have 1: "baseFilename_of ''.xml'' = Inr []"
    unfolding a using c by auto
  from baseFilename_in_bounds [of "''./example/sitemap''"]
  have 2: "baseFilename_of ''./example/sitemap'' = Inr ''sitemap''"
    unfolding b by auto
  from 1 2 show ?thesis by simp
qed

subsection \<open>An empty document\<close>

text \<open>
  C3. When the source file can be read and parses to a document with no URL entry,
  \<open>Split\<close> returns \<open>EmptyDocument\<close> and the world it leaves is the world it started in:
  no file has changed and no write has been made.
\<close>

theorem Split_empty_document:
  assumes "ioutil_ReadFile w (path s) = Some data"
    and "xml_Unmarshal L data = Some urlset"
    and "URLs urlset = []"
  shows "Split L s w = (Some EmptyDocument, w)"
  using assms by (simp add: Split_def)

theorem Split_empty_document_witness:
  "Split (example_lib []) \<lparr>path = ''sitemap.xml'', limit = 10\<rparr> example_world =
     (Some EmptyDocument, example_world)"
proof (rule Split_empty_document)
  show "ioutil_ReadFile example_world (path \<lparr>path = ''sitemap.xml'', limit = 10\<rparr>) =
      Some ''<urlset/>''"
    by (simp add: example_world_def ioutil_ReadFile_def)
  show "xml_Unmarshal (example_lib []) ''<urlset/>'' =
      Some \<lparr>URLSet_XMLName = zero_Name, XMLNS = [], XHTML = [], URLs = []\<rparr>"
    by (simp add: example_lib_def)
  show "URLs \<lparr>URLSet_XMLName = zero_Name, XMLNS = [], XHTML = [], URLs = []\<rparr> = []"
    by simp
qed

subsection \<open>The partition\<close>

text \<open>
  C1. For a non-empty sequence of \<open>n\<close> entries (fewer than \<open>2^62\<close>, which every slice in
  memory has) and a positive limit \<open>l\<close>, a run of the chunk loop that ends without an
  error has cut \<open>ceil(n/l)\<close> chunks: chunk \<open>i\<close> holds the entries at the positions from
  \<open>i * l\<close> up to \<open>min ((i + 1) * l) n\<close>, the chunks in order make up the sequence, no
  chunk is empty or longer than \<open>l\<close>, and every chunk but the last has \<open>l\<close> entries. The
  loop has recorded one file per chunk and written the chunks' documents, in order.
\<close>

theorem chunk_loop_partitions:
  fixes lim :: int64 and urls :: "URL list"
  defines "l \<equiv> nat (sint lim)" and "n \<equiv> length urls"
  assumes pos: "0 < sint lim" and ne: "urls \<noteq> []" and n: "length urls < 2 ^ 62"
    and run: "split_loop L dir b lim urls 0 [] w = (Inr sitemapFiles, w')"
  shows "\<exists>chunks.
     length chunks = (n + l - 1) div l \<and>
     (\<forall>i<length chunks. chunks ! i = map (\<lambda>j. urls ! j) [i * l..<min ((i + 1) * l) n]) \<and>
     concat chunks = urls \<and>
     (\<forall>c\<in>set chunks. c \<noteq> [] \<and> length c \<le> l) \<and>
     (\<forall>i. Suc i < length chunks \<longrightarrow> length (chunks ! i) = l) \<and>
     length sitemapFiles = length chunks \<and>
     length (writes w') = length (writes w) + length chunks \<and>
     (\<forall>i<length chunks. \<exists>x.
        xml_MarshalIndent_URLSet L (chunk_URLSet (chunks ! i)) [] ''  '' = Some x \<and>
        writes w' ! (length (writes w) + i) =
          (filepath_Join L dir (sitemapName_of b (word_of_nat i)), xml_Header @ x))"
proof -
  define count where "count = (n + l - 1) div l"
  define chunks where "chunks = map (\<lambda>j. take l (drop (j * l) urls)) [0..<count]"
  have l0: "0 < l" using pos by (simp add: l_def)
  have len: "length chunks = count" by (simp add: chunks_def)
  have nth: "chunks ! i = take l (drop (i * l) urls)" if "i < count" for i
    using that by (simp add: chunks_def)
  have lt: "i * l < n" if "i < count" for i
    using that less_count_iff [OF l0, of i n] by (simp add: count_def)
  have "split_loop L dir b lim urls (word_of_nat 0) [] w = run_chunks L dir b 0 chunks [] w"
    unfolding chunks_def count_def n_def l_def
    by (rule split_loop_run_chunks [OF pos n]) simp
  with run have rc: "run_chunks L dir b 0 chunks [] w = (Inr sitemapFiles, w')" by simp
  note R = run_chunks_Inr [OF rc]
  have 1: "length chunks = (n + l - 1) div l" using len by (simp add: count_def)
  have 2: "chunks ! i = map (\<lambda>j. urls ! j) [i * l..<min ((i + 1) * l) n]"
    if "i < length chunks" for i
    using that len nth [of i] take_drop_nths [of l "i * l" urls]
    by (simp add: n_def add.commute)
  have "concat chunks = take (count * l) urls"
    unfolding chunks_def by (rule concat_chunks)
  moreover have "n \<le> count * l" unfolding count_def by (rule count_covers [OF l0])
  ultimately have 3: "concat chunks = urls" by (simp add: n_def)
  have 4: "c \<noteq> [] \<and> length c \<le> l" if "c \<in> set chunks" for c
  proof -
    from that obtain i where "i < count" "c = take l (drop (i * l) urls)"
      by (auto simp: chunks_def)
    then show ?thesis using lt [of i] l0 by (simp add: n_def)
  qed
  have 5: "length (chunks ! i) = l" if "Suc i < length chunks" for i
  proof -
    from that len have "Suc i < count" by simp
    from lt [OF this] have "i * l + l < n" by (simp add: add.commute)
    moreover have "chunks ! i = take l (drop (i * l) urls)"
      using that len nth [of i] by simp
    ultimately show ?thesis by (simp add: n_def)
  qed
  have 6: "length sitemapFiles = length chunks" using R by simp
  have 7: "length (writes w') = length (writes w) + length chunks" using R by simp
  have 8: "\<exists>x. xml_MarshalIndent_URLSet L (chunk_URLSet (chunks ! i)) [] ''  '' = Some x \<and>
        writes w' ! (length (writes w) + i) =
          (filepath_Join L dir (sitemapName_of b (word_of_nat i)), xml_Header @ x)"
    if "i < length chunks" for i
    using R that by fastforce
  from 1 2 3 4 5 6 7 8 show ?thesis by blast
qed

theorem chunk_loop_partitions_witness:
  "\<exists>chunks sitemapFiles w'.
     split_loop (example_lib (map example_url [1..<26])) ''.'' ''sitemap'' 10
       (map example_url [1..<26]) 0 [] example_world = (Inr sitemapFiles, w') \<and>
     length chunks = 3 \<and> concat chunks = map example_url [1..<26] \<and>
     length (chunks ! 0) = 10 \<and> length (chunks ! 1) = 10 \<and> length (chunks ! 2) = 5 \<and>
     length sitemapFiles = 3 \<and> length (writes w') = 3"
proof -
  define us where "us = map example_url [1..<26]"
  define X where "X = split_loop (example_lib us) ''.'' ''sitemap'' 10 us 0 [] example_world"
  have "\<not> isl (fst X)" unfolding X_def us_def by code_simp
  then have run: "split_loop (example_lib us) ''.'' ''sitemap'' 10 us 0 [] example_world =
      (Inr (projr (fst X)), snd X)"
    unfolding X_def [symmetric] by (cases X; cases "fst X") auto
  have h1: "0 < sint (10 :: int64)" by simp
  have h2: "us \<noteq> []" by (simp add: us_def)
  have h3: "length us < 2 ^ 62" by (simp add: us_def)
  have w0: "writes example_world = []" by (simp add: example_world_def)
  from chunk_loop_partitions [OF h1 h2 h3 run] obtain chunks where
    c: "length chunks = 3"
       "\<forall>i<length chunks. chunks ! i = map (\<lambda>j. us ! j) [i * 10..<min ((i + 1) * 10) 25]"
       "concat chunks = us"
       "\<forall>i. Suc i < length chunks \<longrightarrow> length (chunks ! i) = 10"
       "length (projr (fst X)) = length chunks"
       "length (writes (snd X)) = length chunks"
    by (auto simp: us_def w0)
  from c(1,4) have a: "length (chunks ! 0) = 10" "length (chunks ! 1) = 10" by simp_all
  from c(1,2) have "chunks ! 2 = map (\<lambda>j. us ! j) [2 * 10..<min ((2 + 1) * 10) 25]" by simp
  then have b: "length (chunks ! 2) = 5" by simp
  from run c(1,3,5,6) a b show ?thesis
    unfolding us_def
    by (intro exI [of _ chunks] exI [of _ "projr (fst X)"] exI [of _ "snd X"]) simp
qed

subsection \<open>The metadata of a chunk\<close>

text \<open>
  C5. In a run of the chunk loop that ends without an error, the file recorded for the
  chunk at position \<open>i\<close> (counted from 0) has the name \<open><baseFilename>-<i+1>.xml\<close>; its
  base URL is \<open><scheme>://<host>/\<close> for the scheme and the host that \<open>url.Parse\<close> returns
  on the location of the chunk's last entry; and its last-modification date is the
  \<open>lastmod\<close> of the chunk's last entry where that is not empty, and otherwise the reading
  of the clock taken at that chunk, formatted by RFC 3339: the clock has been read once
  for every earlier chunk whose last entry has no \<open>lastmod\<close>.
\<close>

theorem chunk_metadata:
  fixes lim :: int64 and urls :: "URL list"
  defines "l \<equiv> nat (sint lim)"
  defines "chunk \<equiv> \<lambda>i. take l (drop (i * l) urls)"
  assumes pos: "0 < sint lim" and n: "length urls < 2 ^ 62"
    and run: "split_loop L dir baseFilename lim urls 0 [] w = (Inr sitemapFiles, w')"
  shows "length sitemapFiles = (length urls + l - 1) div l \<and>
     (\<forall>i<length sitemapFiles.
        Name (sitemapFiles ! i) = baseFilename @ ''-'' @ decimal (i + 1) @ ''.xml'' \<and>
        (\<exists>parsedURL. url_Parse L (Loc (last (chunk i))) = Some parsedURL \<and>
           BaseURL (sitemapFiles ! i) = Scheme parsedURL @ ''://'' @ Host parsedURL @ ''/'') \<and>
        LastModDate (sitemapFiles ! i) =
          (if LastMod (last (chunk i)) \<noteq> [] then LastMod (last (chunk i))
           else clock w (ticks w +
                  length (filter (\<lambda>j. LastMod (last (chunk j)) = []) [0..<i]))))"
proof -
  define count where "count = (length urls + l - 1) div l"
  define chunks where "chunks = map chunk [0..<count]"
  have l0: "0 < l" using pos by (simp add: l_def)
  have "split_loop L dir baseFilename lim urls (word_of_nat 0) [] w =
      run_chunks L dir baseFilename 0 chunks [] w"
    unfolding chunks_def count_def chunk_def l_def
    by (rule split_loop_run_chunks [OF pos n]) simp
  with run have rc: "run_chunks L dir baseFilename 0 chunks [] w = (Inr sitemapFiles, w')"
    by simp
  note R = run_chunks_Inr [OF rc]
  have len: "length sitemapFiles = count" using R by (simp add: chunks_def)
  have "Name (sitemapFiles ! i) = baseFilename @ ''-'' @ decimal (i + 1) @ ''.xml'' \<and>
        (\<exists>parsedURL. url_Parse L (Loc (last (chunk i))) = Some parsedURL \<and>
           BaseURL (sitemapFiles ! i) = Scheme parsedURL @ ''://'' @ Host parsedURL @ ''/'') \<and>
        LastModDate (sitemapFiles ! i) =
          (if LastMod (last (chunk i)) \<noteq> [] then LastMod (last (chunk i))
           else clock w (ticks w +
                  length (filter (\<lambda>j. LastMod (last (chunk j)) = []) [0..<i])))"
    if i: "i < length sitemapFiles" for i
  proof -
    from i len have ic: "i < count" by simp
    then have "i < length urls" unfolding count_def by (rule less_count_less [OF l0])
    with n have i62: "i < 2 ^ 62" by simp
    have ci: "chunks ! i = chunk i" using ic by (simp add: chunks_def)
    have fl: "length (filter (\<lambda>c. LastMod (last c) = []) (take i chunks)) =
        length (filter (\<lambda>j. LastMod (last (chunk j)) = []) [0..<i])"
      unfolding chunks_def using ic by (simp add: filter_take_map_upt)
    from R ic obtain u x where
      u: "url_Parse L (Loc (last (chunks ! i))) = Some u" and
      f: "sitemapFiles ! (length ([]::sitemap_file list) + i) =
          \<lparr>BaseURL = baseURL_of u, Name = sitemapName_of baseFilename (word_of_nat (0 + i)),
           LastModDate =
             (if LastMod (last (chunks ! i)) = []
              then clock w (ticks w + length (filter (\<lambda>c. LastMod (last c) = []) (take i chunks)))
              else LastMod (last (chunks ! i)))\<rparr>"
      unfolding chunks_def by (metis (no_types, lifting) length_map length_upt minus_nat.diff_0)
    from f have f': "sitemapFiles ! i =
          \<lparr>BaseURL = baseURL_of u, Name = sitemapName_of baseFilename (word_of_nat i),
           LastModDate =
             (if LastMod (last (chunk i)) = []
              then clock w (ticks w + length (filter (\<lambda>j. LastMod (last (chunk j)) = []) [0..<i]))
              else LastMod (last (chunk i)))\<rparr>"
      by (simp add: ci fl)
    show ?thesis
      using u f' by (simp add: ci sitemapName_of_nat [OF i62] baseURL_of_def)
  qed
  with len show ?thesis by (simp add: count_def)
qed

theorem chunk_metadata_witness:
  "\<exists>sitemapFiles w'.
     split_loop (example_lib []) ''.'' ''sitemap'' 2
       [example_url 1, example_url 2, (example_url 3)\<lparr>LastMod := []\<rparr>] 0 [] example_world =
       (Inr sitemapFiles, w') \<and>
     sitemapFiles =
       [\<lparr>BaseURL = ''https://example.com/'', Name = ''sitemap-1.xml'', LastModDate = ''2024-01-2''\<rparr>,
        \<lparr>BaseURL = ''https://example.com/'', Name = ''sitemap-2.xml'',
         LastModDate = ''2024-01-01T00:00:00Z''\<rparr>]"
proof -
  define us where "us = [example_url 1, example_url 2, (example_url 3)\<lparr>LastMod := []\<rparr>]"
  define X where "X = split_loop (example_lib []) ''.'' ''sitemap'' 2 us 0 [] example_world"
  define fs where "fs = projr (fst X)"
  have "\<not> isl (fst X)" unfolding X_def us_def by code_simp
  then have run: "split_loop (example_lib []) ''.'' ''sitemap'' 2 us 0 [] example_world =
      (Inr fs, snd X)"
    unfolding X_def [symmetric] fs_def by (cases X; cases "fst X") auto
  have h1: "0 < sint (2 :: int64)" by simp
  have h3: "length us < 2 ^ 62" by (simp add: us_def)
  have d2: "decimal 1 = ''1''" "decimal 2 = ''2''" by code_simp+
  then have d: "decimal (Suc 0) = ''1''" "decimal (Suc (Suc 0)) = ''2''" "decimal 2 = ''2''"
    by (simp_all add: numeral_2_eq_2)
  have c: "last (take 2 (drop (0 * 2) us)) = example_url 2"
    "last (take 2 (drop (1 * 2) us)) = (example_url 3)\<lparr>LastMod := []\<rparr>"
    by (simp_all add: us_def)
  have p: "url_Parse (example_lib []) loc = Some u \<longleftrightarrow>
      u = \<lparr>Scheme = ''https'', Host = ''example.com''\<rparr>" for loc u
    by (auto simp: example_lib_def)
  from chunk_metadata [OF h1 h3 run]
  have len: "length fs = 2"
    and all: "\<forall>i<length fs.
        Name (fs ! i) = ''sitemap'' @ ''-'' @ decimal (i + 1) @ ''.xml'' \<and>
        (\<exists>parsedURL. url_Parse (example_lib []) (Loc (last (take 2 (drop (i * 2) us)))) =
             Some parsedURL \<and>
           BaseURL (fs ! i) = Scheme parsedURL @ ''://'' @ Host parsedURL @ ''/'') \<and>
        LastModDate (fs ! i) =
          (if LastMod (last (take 2 (drop (i * 2) us))) \<noteq> []
           then LastMod (last (take 2 (drop (i * 2) us)))
           else clock example_world (ticks example_world +
                  length (filter (\<lambda>j. LastMod (last (take 2 (drop (j * 2) us))) = []) [0..<i])))"
    by (simp_all add: us_def)
  have "0 < length fs" "1 < length fs" using len by simp_all
  note a0 = all [rule_format, OF this(1)] and a1 = all [rule_format, OF this(2)]
  from a0 have 0: "fs ! 0 =
      \<lparr>BaseURL = ''https://example.com/'', Name = ''sitemap-1.xml'', LastModDate = ''2024-01-2''\<rparr>"
    using c(1) d by (cases "fs ! 0") (auto simp: p example_url_def)
  from a1 have 1: "fs ! 1 =
      \<lparr>BaseURL = ''https://example.com/'', Name = ''sitemap-2.xml'',
       LastModDate = ''2024-01-01T00:00:00Z''\<rparr>"
    using c d by (cases "fs ! 1") (auto simp: p example_url_def example_world_def)
  from len 0 1 have "fs = [\<lparr>BaseURL = ''https://example.com/'', Name = ''sitemap-1.xml'',
         LastModDate = ''2024-01-2''\<rparr>,
        \<lparr>BaseURL = ''https://example.com/'', Name = ''sitemap-2.xml'',
         LastModDate = ''2024-01-01T00:00:00Z''\<rparr>]"
    by (intro nth_equalityI) (auto simp: less_Suc_eq numeral_2_eq_2)
  with run show ?thesis unfolding us_def by blast
qed

subsection \<open>The index\<close>

text \<open>
  C6. After a successful \<open>Split\<close> over \<open>n\<close> entries with limit \<open>l\<close>, the last write is the
  file \<open>sitemap-index.xml\<close> beside the source, holding the XML header and the marshalled
  index document. The document has \<open>ceil(n/l)\<close> references, in the order of the chunks:
  the reference at position \<open>i\<close> has as location the base URL of chunk \<open>i\<close> followed by
  the name of its file, and as last-modification date the one derived for the chunk (the
  \<open>lastmod\<close> of its last entry, or the reading of the clock). Before it the chunks'
  documents were written, one file per chunk and in order. For 25 entries and limit 10
  these are three chunk files and an index of three references.
\<close>

theorem Split_index:
  fixes s :: SitemapSplitter and L :: lib and urlset :: URLSet
  defines "l \<equiv> nat (sint (limit s))"
  defines "dir \<equiv> filepath_Dir L (path s)"
  defines "chunk \<equiv> \<lambda>i. take l (drop (i * l) (URLs urlset))"
  defines "count \<equiv> (length (URLs urlset) + l - 1) div l"
  assumes rd: "ioutil_ReadFile w (path s) = Some data"
    and um: "xml_Unmarshal L data = Some urlset"
    and pos: "0 < sint (limit s)"
    and n: "length (URLs urlset) < 2 ^ 62"
    and b: "baseFilename_of (path s) = Inr baseFilename"
    and ok: "Split L s w = (None, w')"
  shows "\<exists>sitemapIndex xmlData.
     xml_MarshalIndent_SitemapIndex L sitemapIndex [] ''  '' = Some xmlData \<and>
     length (writes w') = length (writes w) + count + 1 \<and>
     last (writes w') = (filepath_Join L dir ''sitemap-index.xml'', xml_Header @ xmlData) \<and>
     files w' (filepath_Join L dir ''sitemap-index.xml'') = Some (xml_Header @ xmlData) \<and>
     SitemapIndex_XMLNS sitemapIndex = ''http://www.sitemaps.org/schemas/sitemap/0.9'' \<and>
     length (Sitemaps sitemapIndex) = count \<and>
     (\<forall>i<count.
        (\<exists>parsedURL. url_Parse L (Loc (last (chunk i))) = Some parsedURL \<and>
           Sitemap_Loc (Sitemaps sitemapIndex ! i) =
             (Scheme parsedURL @ ''://'' @ Host parsedURL @ ''/'') @
             (baseFilename @ ''-'' @ decimal (i + 1) @ ''.xml'')) \<and>
        Sitemap_LastMod (Sitemaps sitemapIndex ! i) =
          (if LastMod (last (chunk i)) \<noteq> [] then LastMod (last (chunk i))
           else clock w (ticks w +
                  length (filter (\<lambda>j. LastMod (last (chunk j)) = []) [0..<i]))) \<and>
        (\<exists>chunkData.
           xml_MarshalIndent_URLSet L (chunk_URLSet (chunk i)) [] ''  '' = Some chunkData \<and>
           writes w' ! (length (writes w) + i) =
             (filepath_Join L dir (baseFilename @ ''-'' @ decimal (i + 1) @ ''.xml''),
              xml_Header @ chunkData)))"
proof -
  define chunks where "chunks = map chunk [0..<count]"
  have l0: "0 < l" using pos by (simp add: l_def)
  from Split_None [OF rd um pos n b ok] obtain fs w1 x where
    rc: "run_chunks L dir baseFilename 0 chunks [] w = (Inr fs, w1)" and
    mx: "xml_MarshalIndent_SitemapIndex L
       \<lparr>SitemapIndex_XMLName = zero_Name,
        SitemapIndex_XMLNS = ''http://www.sitemaps.org/schemas/sitemap/0.9'',
        Sitemaps = index_loop fs []\<rparr> [] ''  '' = Some x" and
    wr: "os_WriteFile w1 (filepath_Join L dir ''sitemap-index.xml'') (xml_Header @ x) = (True, w')"
    unfolding chunks_def chunk_def count_def dir_def l_def by blast
  note R = run_chunks_Inr [OF rc]
  note W = os_WriteFile_True [OF wr]
  let ?idx = "\<lparr>SitemapIndex_XMLName = zero_Name,
        SitemapIndex_XMLNS = ''http://www.sitemaps.org/schemas/sitemap/0.9'',
        Sitemaps = index_loop fs []\<rparr>"
  have lenc: "length chunks = count" by (simp add: chunks_def)
  have lenf: "length fs = count" using R lenc by simp
  have lenw1: "length (writes w1) = length (writes w) + count" using R lenc by simp
  have 1: "length (writes w') = length (writes w) + count + 1" using W lenw1 by simp
  have 2: "last (writes w') = (filepath_Join L dir ''sitemap-index.xml'', xml_Header @ x)"
    using W by simp
  have 3: "files w' (filepath_Join L dir ''sitemap-index.xml'') = Some (xml_Header @ x)"
    using W by simp
  have 4: "length (Sitemaps ?idx) = count" using lenf by (simp add: index_loop_eq)
  have 5: "(\<exists>parsedURL. url_Parse L (Loc (last (chunk i))) = Some parsedURL \<and>
           Sitemap_Loc (Sitemaps ?idx ! i) =
             (Scheme parsedURL @ ''://'' @ Host parsedURL @ ''/'') @
             (baseFilename @ ''-'' @ decimal (i + 1) @ ''.xml'')) \<and>
        Sitemap_LastMod (Sitemaps ?idx ! i) =
          (if LastMod (last (chunk i)) \<noteq> [] then LastMod (last (chunk i))
           else clock w (ticks w +
                  length (filter (\<lambda>j. LastMod (last (chunk j)) = []) [0..<i]))) \<and>
        (\<exists>chunkData.
           xml_MarshalIndent_URLSet L (chunk_URLSet (chunk i)) [] ''  '' = Some chunkData \<and>
           writes w' ! (length (writes w) + i) =
             (filepath_Join L dir (baseFilename @ ''-'' @ decimal (i + 1) @ ''.xml''),
              xml_Header @ chunkData))"
    if ic: "i < count" for i
  proof -
    from ic have "i < length (URLs urlset)"
      unfolding count_def by (rule less_count_less [OF l0])
    with n have i62: "i < 2 ^ 62" by simp
    have ci: "chunks ! i = chunk i" using ic by (simp add: chunks_def)
    have fl: "length (filter (\<lambda>c. LastMod (last c) = []) (take i chunks)) =
        length (filter (\<lambda>j. LastMod (last (chunk j)) = []) [0..<i])"
      unfolding chunks_def using ic by (simp add: filter_take_map_upt)
    from R ic lenc obtain u y where
      u: "url_Parse L (Loc (last (chunks ! i))) = Some u" and
      y: "xml_MarshalIndent_URLSet L (chunk_URLSet (chunks ! i)) [] ''  '' = Some y" and
      f: "fs ! (length ([]::sitemap_file list) + i) =
          \<lparr>BaseURL = baseURL_of u, Name = sitemapName_of baseFilename (word_of_nat (0 + i)),
           LastModDate =
             (if LastMod (last (chunks ! i)) = []
              then clock w (ticks w + length (filter (\<lambda>c. LastMod (last c) = []) (take i chunks)))
              else LastMod (last (chunks ! i)))\<rparr>" and
      wi: "writes w1 ! (length (writes w) + i) =
          (filepath_Join L dir (sitemapName_of baseFilename (word_of_nat (0 + i))), xml_Header @ y)"
      by metis
    have nm: "sitemapName_of baseFilename (word_of_nat i) =
        baseFilename @ ''-'' @ decimal (i + 1) @ ''.xml''"
      using sitemapName_of_nat [OF i62] by simp
    have "writes w' ! (length (writes w) + i) = writes w1 ! (length (writes w) + i)"
      using W lenw1 ic by (simp add: nth_append)
    with wi nm have a: "writes w' ! (length (writes w) + i) =
        (filepath_Join L dir (baseFilename @ ''-'' @ decimal (i + 1) @ ''.xml''), xml_Header @ y)"
      by simp
    have "Sitemaps ?idx ! i = \<lparr>Sitemap_XMLName = zero_Name,
        Sitemap_Loc = BaseURL (fs ! i) @ Name (fs ! i), Sitemap_LastMod = LastModDate (fs ! i)\<rparr>"
      using ic lenf by (simp add: index_loop_eq)
    with f nm have c: "Sitemap_Loc (Sitemaps ?idx ! i) =
        (Scheme u @ ''://'' @ Host u @ ''/'') @ (baseFilename @ ''-'' @ decimal (i + 1) @ ''.xml'')"
      and d: "Sitemap_LastMod (Sitemaps ?idx ! i) =
          (if LastMod (last (chunk i)) \<noteq> [] then LastMod (last (chunk i))
           else clock w (ticks w +
                  length (filter (\<lambda>j. LastMod (last (chunk j)) = []) [0..<i])))"
      by (simp_all add: baseURL_of_def ci fl)
    from u y a c d show ?thesis unfolding ci by blast
  qed
  show ?thesis
    apply (rule exI [of _ ?idx])
    apply (rule exI [of _ x])
    using mx 1 2 3 4 5 by simp
qed

theorem Split_index_witness:
  "\<exists>w' sitemapIndex xmlData.
     Split (example_lib (map example_url [1..<26])) \<lparr>path = ''sitemap.xml'', limit = 10\<rparr>
       example_world = (None, w') \<and>
     length (writes w') = 4 \<and>
     xml_MarshalIndent_SitemapIndex (example_lib (map example_url [1..<26])) sitemapIndex []
       ''  '' = Some xmlData \<and>
     last (writes w') = (''./sitemap-index.xml'', xml_Header @ xmlData) \<and>
     map Sitemap_Loc (Sitemaps sitemapIndex) =
       [''https://example.com/sitemap-1.xml'', ''https://example.com/sitemap-2.xml'',
        ''https://example.com/sitemap-3.xml''] \<and>
     map Sitemap_LastMod (Sitemaps sitemapIndex) = [''2024-01-10'', ''2024-01-20'', ''2024-01-25'']"
proof -
  define us where "us = map example_url [1..<26]"
  define s where "s = \<lparr>path = ''sitemap.xml'', limit = 10\<rparr>"
  define X where "X = Split (example_lib us) s example_world"
  have "fst X = None" unfolding X_def us_def s_def by code_simp
  then have ok: "Split (example_lib us) s example_world = (None, snd X)"
    unfolding X_def [symmetric] by (cases X) auto
  have rd: "ioutil_ReadFile example_world (path s) = Some ''<urlset/>''"
    by (simp add: example_world_def ioutil_ReadFile_def s_def)
  have um: "xml_Unmarshal (example_lib us) ''<urlset/>'' =
      Some \<lparr>URLSet_XMLName = zero_Name, XMLNS = [], XHTML = [], URLs = us\<rparr>"
    by (simp add: example_lib_def)
  have pos: "0 < sint (limit s)" by (simp add: s_def)
  have n: "length (URLs \<lparr>URLSet_XMLName = zero_Name, XMLNS = [], XHTML = [], URLs = us\<rparr>) < 2 ^ 62"
    by (simp add: us_def)
  have b: "baseFilename_of (path s) = Inr ''sitemap''"
    unfolding s_def by code_simp
  have d: "decimal (Suc 0) = ''1''" "decimal (Suc (Suc 0)) = ''2''"
    "decimal (Suc (Suc (Suc 0))) = ''3''"
    by code_simp+
  have c: "LastMod (last (take 10 (drop (0 * 10) us))) = ''2024-01-10''"
    "LastMod (last (take 10 (drop (1 * 10) us))) = ''2024-01-20''"
    "LastMod (last (take 10 (drop (2 * 10) us))) = ''2024-01-25''"
    unfolding us_def by code_simp+
  have p: "url_Parse (example_lib us) loc = Some u \<longleftrightarrow>
      u = \<lparr>Scheme = ''https'', Host = ''example.com''\<rparr>" for loc u
    by (auto simp: example_lib_def)
  have dir: "filepath_Dir (example_lib us) p = ''.''"
    "filepath_Join (example_lib us) q r = q @ ''/'' @ r" for p q r
    by (simp_all add: example_lib_def)
  have sm: "nat (sint (limit s)) = 10" "path s = ''sitemap.xml''" "length us = 25"
    "writes example_world = []" "ticks example_world = 0"
    "clock example_world t = ''2024-01-01T00:00:00Z''" for t
    by (simp_all add: s_def us_def example_world_def)
  note T = Split_index [OF rd um pos n b ok, simplified, simplified sm dir, simplified]
  from T obtain idx x where
    m: "xml_MarshalIndent_SitemapIndex (example_lib us) idx [] ''  '' = Some x" and
    lw: "length (writes (snd X)) = 4" and
    la: "last (writes (snd X)) = (''./sitemap-index.xml'', xml_Header @ x)" and
    len: "length (Sitemaps idx) = 3" and
    all: "\<forall>i<3.
        (\<exists>parsedURL. url_Parse (example_lib us) (Loc (last (take 10 (drop (i * 10) us)))) =
             Some parsedURL \<and>
           Sitemap_Loc (Sitemaps idx ! i) =
             (Scheme parsedURL @ ''://'' @ Host parsedURL @ ''/'') @
             (''sitemap'' @ ''-'' @ decimal (i + 1) @ ''.xml'')) \<and>
        Sitemap_LastMod (Sitemaps idx ! i) =
          (if LastMod (last (take 10 (drop (i * 10) us))) \<noteq> []
           then LastMod (last (take 10 (drop (i * 10) us)))
           else ''2024-01-01T00:00:00Z'')"
    by auto
  have i3: "(0::nat) < 3" "(1::nat) < 3" "(2::nat) < 3" by simp_all
  note a0 = all [rule_format, OF i3(1)] and a1 = all [rule_format, OF i3(2)]
    and a2 = all [rule_format, OF i3(3)]
  have l0: "Sitemap_Loc (Sitemaps idx ! 0) = ''https://example.com/sitemap-1.xml''"
    "Sitemap_LastMod (Sitemaps idx ! 0) = ''2024-01-10''"
    using a0 c(1) d by (auto simp: p)
  have l1: "Sitemap_Loc (Sitemaps idx ! 1) = ''https://example.com/sitemap-2.xml''"
    "Sitemap_LastMod (Sitemaps idx ! 1) = ''2024-01-20''"
    using a1 c(2) d by (auto simp: p)
  have l2: "Sitemap_Loc (Sitemaps idx ! 2) = ''https://example.com/sitemap-3.xml''"
    "Sitemap_LastMod (Sitemaps idx ! 2) = ''2024-01-25''"
    using a2 c(3) d by (auto simp: p numeral_2_eq_2)
  have e: "xs = [xs ! 0, xs ! 1, xs ! 2]" if "length xs = 3" for xs :: "Sitemap list"
    using that by (intro nth_equalityI) (auto simp: less_Suc_eq numeral_3_eq_3 numeral_2_eq_2)
  have "map Sitemap_Loc (Sitemaps idx) =
       [''https://example.com/sitemap-1.xml'', ''https://example.com/sitemap-2.xml'',
        ''https://example.com/sitemap-3.xml'']"
    using l0 l1 l2 by (subst e [OF len]) simp
  moreover have "map Sitemap_LastMod (Sitemaps idx) = [''2024-01-10'', ''2024-01-20'', ''2024-01-25'']"
    using l0 l1 l2 by (subst e [OF len]) simp
  ultimately show ?thesis
    using ok m lw la unfolding us_def s_def
    by (intro exI [of _ "snd X"] exI [of _ idx] exI [of _ x]) simp
qed

subsection \<open>A location that does not parse\<close>

text \<open>
  C2, as amended. Let \<open>url.Parse\<close> return an error on the location of the last entry of
  the chunk at position \<open>i\<close>. Then
  \<^item> the loop, whenever it reaches that chunk, returns \<open>URLParseError\<close> at once and leaves
    the world as it found it;
  \<^item> \<open>Split\<close> never succeeds: it returns an error, and what it has written are the
    documents of the first \<open>m\<close> chunks for some \<open>m \<le> i\<close>, in order, and nothing else;
    no file other than those of the chunks before \<open>i\<close> has changed;
  \<^item> when every chunk before \<open>i\<close> is parsed, marshalled and written without an error,
    \<open>Split\<close> returns \<open>URLParseError\<close>, and the world it leaves is the one it started in
    with the documents of exactly the chunks before \<open>i\<close> written and the clock read once
    for each of them whose last entry has no \<open>lastmod\<close>: the chunk \<open>i\<close> itself, the later
    chunks and the index are not written.
  Here \<open>out j\<close> is the path and the content of the file of chunk \<open>j\<close>.
\<close>

theorem Split_url_parse_error:
  fixes s :: SitemapSplitter and L :: lib and urlset :: URLSet and baseFilename :: string
  defines "l \<equiv> nat (sint (limit s))"
  defines "dir \<equiv> filepath_Dir L (path s)"
  defines "chunk \<equiv> \<lambda>i. take l (drop (i * l) (URLs urlset))"
  defines "out \<equiv> \<lambda>j. (filepath_Join L dir (baseFilename @ ''-'' @ decimal (j + 1) @ ''.xml''),
      xml_Header @ the (xml_MarshalIndent_URLSet L (chunk_URLSet (chunk j)) [] ''  ''))"
  assumes rd: "ioutil_ReadFile w (path s) = Some data"
    and um: "xml_Unmarshal L data = Some urlset"
    and pos: "0 < sint (limit s)"
    and n: "length (URLs urlset) < 2 ^ 62"
    and b: "baseFilename_of (path s) = Inr baseFilename"
    and i: "i * l < length (URLs urlset)"
    and bad: "url_Parse L (Loc (last (chunk i))) = None"
  shows "(\<forall>sitemapFiles w0.
            split_loop L dir baseFilename (limit s) (URLs urlset) (word_of_nat i) sitemapFiles w0 =
              (Inl URLParseError, w0)) \<and>
         (\<exists>e w' m. Split L s w = (Some e, w') \<and>
            (e = URLParseError \<or> e = SerializationError \<or> e = WriteError) \<and>
            m \<le> i \<and> writes w' = writes w @ map out [0..<m] \<and>
            (\<forall>p. (\<forall>j<i. p \<noteq> fst (out j)) \<longrightarrow> files w' p = files w p)) \<and>
         ((\<forall>j<i. url_Parse L (Loc (last (chunk j))) \<noteq> None \<and>
                 xml_MarshalIndent_URLSet L (chunk_URLSet (chunk j)) [] ''  '' \<noteq> None \<and>
                 wfail w (fst (out j)) (snd (out j)) = None) \<longrightarrow>
          Split L s w =
            (Some URLParseError,
             w\<lparr>files := foldl (\<lambda>f (p, d). f(p := Some d)) (files w) (map out [0..<i]),
               writes := writes w @ map out [0..<i],
               ticks := ticks w +
                 length (filter (\<lambda>j. LastMod (last (chunk j)) = []) [0..<i])\<rparr>))"
proof -
  define count where "count = (length (URLs urlset) + l - 1) div l"
  define chunks where "chunks = map chunk [0..<count]"
  define P where "P = (\<lambda>j. filepath_Join L dir (sitemapName_of baseFilename (word_of_nat j)))"
  have l0: "0 < l" using pos by (simp add: l_def)
  have ic: "i < count" using i less_count_iff [OF l0] by (simp add: count_def)
  have ne: "URLs urlset \<noteq> []" using i by auto
  have lenc: "length chunks = count" by (simp add: chunks_def)
  have ci: "chunks ! j = chunk j" if "j < count" for j
    using that by (simp add: chunks_def)
  have nm: "sitemapName_of baseFilename (word_of_nat j) =
      baseFilename @ ''-'' @ decimal (j + 1) @ ''.xml''" if "j < count" for j
  proof -
    from that have "j < length (URLs urlset)"
      unfolding count_def by (rule less_count_less [OF l0])
    with n have "j < 2 ^ 62" by simp
    from sitemapName_of_nat [OF this] show ?thesis by simp
  qed
  have Pj: "P j = fst (out j)" if "j < count" for j
    using nm [OF that] by (simp add: P_def out_def)
  have S: "Split L s w =
     (case run_chunks L dir baseFilename 0 chunks [] w of
        (Inl e, w1) \<Rightarrow> (Some e, w1)
      | (Inr sitemapFiles, w1) \<Rightarrow>
          (case xml_MarshalIndent_SitemapIndex L
                  \<lparr>SitemapIndex_XMLName = zero_Name,
                   SitemapIndex_XMLNS = ''http://www.sitemaps.org/schemas/sitemap/0.9'',
                   Sitemaps = index_loop sitemapFiles []\<rparr> [] ''  '' of
             None \<Rightarrow> (Some SerializationError, w1)
           | Some xmlData \<Rightarrow>
               (case os_WriteFile w1 (filepath_Join L dir ''sitemap-index.xml'')
                       (xml_Header @ xmlData) of
                  (False, w2) \<Rightarrow> (Some WriteError, w2)
                | (True, w2) \<Rightarrow> (None, w2))))"
    unfolding chunks_def chunk_def count_def dir_def l_def
    by (rule Split_run_chunks [OF rd um ne pos n b])
  have prefix_writes: "writes w0 = writes w @ map out [0..<j]"
    if r0: "run_chunks L dir baseFilename 0 (take j chunks) [] w = (Inr fs0, w0)"
      and j: "j \<le> count" for j fs0 w0
  proof -
    have "map (\<lambda>k. (filepath_Join L dir (sitemapName_of baseFilename (word_of_nat (0 + k))),
               xml_Header @
               the (xml_MarshalIndent_URLSet L (chunk_URLSet (take j chunks ! k)) [] ''  '')))
            [0..<length (take j chunks)] = map out [0..<j]"
    proof (rule map_cong)
      show "[0..<length (take j chunks)] = [0..<j]" using j lenc by simp
      fix k assume "k \<in> set [0..<j]"
      then have kj: "k < j" by simp
      with j have kc: "k < count" by simp
      show "(filepath_Join L dir (sitemapName_of baseFilename (word_of_nat (0 + k))),
             xml_Header @
             the (xml_MarshalIndent_URLSet L (chunk_URLSet (take j chunks ! k)) [] ''  '')) =
            out k"
        using kj ci [OF kc] nm [OF kc] by (simp add: out_def)
    qed
    with run_chunks_writes [OF r0] show ?thesis by simp
  qed
  have 1: "split_loop L dir baseFilename (limit s) (URLs urlset) (word_of_nat i) fs w0 =
      (Inl URLParseError, w0)" for fs w0
  proof -
    note cs = chunk_slice [OF pos n, folded l_def, OF i]
    have "loop_body L dir baseFilename (limit s) (URLs urlset) (word_of_nat i) fs w0 =
        process_chunk L dir baseFilename (word_of_nat i) (chunk i) fs w0"
      using cs(2) i l0 by (auto simp: loop_body_def Let_def min_def chunk_def)
    also have "\<dots> = (Return URLParseError, w0)"
      by (rule process_chunk_parse_error [OF bad])
    finally show ?thesis
      using cs(1) by (subst split_loop.simps) simp
  qed
  have 2: "\<exists>e w' m. Split L s w = (Some e, w') \<and>
            (e = URLParseError \<or> e = SerializationError \<or> e = WriteError) \<and>
            m \<le> i \<and> writes w' = writes w @ map out [0..<m] \<and>
            (\<forall>p. (\<forall>j<i. p \<noteq> fst (out j)) \<longrightarrow> files w' p = files w p)"
  proof -
    obtain r w1 where rc: "run_chunks L dir baseFilename 0 chunks [] w = (r, w1)"
      by fastforce
    have "\<exists>e. r = Inl e"
    proof (cases r)
      case (Inr fs)
      with rc run_chunks_Inr [of L dir baseFilename 0 chunks "[]" w fs w1] ic lenc
      have "\<exists>u. url_Parse L (Loc (last (chunks ! i))) = Some u" by auto
      with bad ci [OF ic] show ?thesis by simp
    qed simp
    then obtain e where e: "r = Inl e" by blast
    with S rc have sp: "Split L s w = (Some e, w1)" by simp
    from run_chunks_Inl [of L dir baseFilename 0 chunks "[]" w e w1] rc e obtain j fs0 w0 where
      j: "j < count" and
      r0: "run_chunks L dir baseFilename 0 (take j chunks) [] w = (Inr fs0, w0)" and
      pc: "process_chunk L dir baseFilename (word_of_nat j) (chunks ! j) fs0 w0 = (Return e, w1)"
      using lenc by auto
    have ji: "j \<le> i"
    proof (rule ccontr)
      assume "\<not> j \<le> i"
      then have ij: "i < j" by simp
      with run_chunks_Inr [OF r0] j lenc
      have "\<exists>u. url_Parse L (Loc (last (take j chunks ! i))) = Some u" by auto
      with ij bad ci [OF ic] show False by simp
    qed
    note PR = process_chunk_Return [OF pc]
    have w: "writes w1 = writes w @ map out [0..<j]"
      using prefix_writes [OF r0] j PR(1) by simp
    have f: "files w1 p = files w p" if p: "\<forall>k<i. p \<noteq> fst (out k)" for p
    proof -
      have a: "\<forall>k<length (take j chunks).
          p \<noteq> filepath_Join L dir (sitemapName_of baseFilename (word_of_nat (0 + k)))"
      proof (intro allI impI)
        fix k assume "k < length (take j chunks)"
        then have kj: "k < j" by simp
        with ji j have "k < i" "k < count" by simp_all
        with p Pj [of k] show
          "p \<noteq> filepath_Join L dir (sitemapName_of baseFilename (word_of_nat (0 + k)))"
          by (simp add: P_def)
      qed
      have f0: "files w0 p = files w p"
        by (rule run_chunks_files_other [OF r0 a])
      show ?thesis
      proof (cases "j = i")
        case True
        with pc ci [OF ic] process_chunk_parse_error [OF bad, of dir baseFilename "word_of_nat i" fs0 w0]
        have "w1 = w0" by simp
        with f0 show ?thesis by simp
      next
        case False
        with ji have "j < i" by simp
        with p Pj [OF j] have "p \<noteq> P j" by simp
        then have "files w1 p = files w0 p"
          using PR(4) [of p] by (simp add: P_def)
        with f0 show ?thesis by simp
      qed
    qed
    from sp PR(5) ji w f show ?thesis by blast
  qed
  have 3: "Split L s w =
            (Some URLParseError,
             w\<lparr>files := foldl (\<lambda>f (p, d). f(p := Some d)) (files w) (map out [0..<i]),
               writes := writes w @ map out [0..<i],
               ticks := ticks w +
                 length (filter (\<lambda>j. LastMod (last (chunk j)) = []) [0..<i])\<rparr>)"
    if good: "\<forall>j<i. url_Parse L (Loc (last (chunk j))) \<noteq> None \<and>
                 xml_MarshalIndent_URLSet L (chunk_URLSet (chunk j)) [] ''  '' \<noteq> None \<and>
                 wfail w (fst (out j)) (snd (out j)) = None"
  proof -
    have g: "\<forall>j<length (take i chunks). \<exists>u x.
        url_Parse L (Loc (last (take i chunks ! j))) = Some u \<and>
        xml_MarshalIndent_URLSet L (chunk_URLSet (take i chunks ! j)) [] ''  '' = Some x \<and>
        wfail w (filepath_Join L dir (sitemapName_of baseFilename (word_of_nat (0 + j))))
          (xml_Header @ x) = None"
    proof (intro allI impI)
      fix j assume "j < length (take i chunks)"
      then have ji: "j < i" by simp
      with ic have jc: "j < count" by simp
      from good ji obtain u x where
        "url_Parse L (Loc (last (chunk j))) = Some u"
        "xml_MarshalIndent_URLSet L (chunk_URLSet (chunk j)) [] ''  '' = Some x"
        "wfail w (fst (out j)) (snd (out j)) = None"
        by auto
      then show "\<exists>u x.
        url_Parse L (Loc (last (take i chunks ! j))) = Some u \<and>
        xml_MarshalIndent_URLSet L (chunk_URLSet (take i chunks ! j)) [] ''  '' = Some x \<and>
        wfail w (filepath_Join L dir (sitemapName_of baseFilename (word_of_nat (0 + j))))
          (xml_Header @ x) = None"
        using ji ci [OF jc] nm [OF jc] by (simp add: out_def)
    qed
    from run_chunks_good [OF g] obtain fs0 w0 where
      r0: "run_chunks L dir baseFilename 0 (take i chunks) [] w = (Inr fs0, w0)"
      by blast
    have split: "chunks = take i chunks @ chunk i # drop (Suc i) chunks"
      using ic lenc ci [OF ic] id_take_nth_drop [of i chunks] by simp
    have li: "length (take i chunks) = i" using ic lenc by simp
    have "run_chunks L dir baseFilename 0 (take i chunks @ chunk i # drop (Suc i) chunks) [] w =
        (Inl URLParseError, w0)"
      by (simp add: run_chunks_append r0 li process_chunk_parse_error [OF bad])
    with split have "run_chunks L dir baseFilename 0 chunks [] w = (Inl URLParseError, w0)"
      by simp
    with S have sp: "Split L s w = (Some URLParseError, w0)" by simp
    have wr: "writes w0 = writes w @ map out [0..<i]"
      using prefix_writes [OF r0] ic by simp
    then have dr: "drop (length (writes w)) (writes w0) = map out [0..<i]" by simp
    have tk: "length (filter (\<lambda>c. LastMod (last c) = []) (take i chunks)) =
        length (filter (\<lambda>j. LastMod (last (chunk j)) = []) [0..<i])"
      unfolding chunks_def using ic by (simp add: filter_take_map_upt)
    from run_chunks_world [OF r0] have "w0 =
        w\<lparr>files := foldl (\<lambda>f (p, d). f(p := Some d)) (files w) (map out [0..<i]),
          writes := writes w @ map out [0..<i],
          ticks := ticks w + length (filter (\<lambda>j. LastMod (last (chunk j)) = []) [0..<i])\<rparr>"
      by (simp only: dr tk)
    with sp show ?thesis by simp
  qed
  from 1 2 3 show ?thesis by blast
qed

theorem Split_url_parse_error_witness:
  "\<exists>w'. Split ((example_lib [example_url 1, example_url 2, example_url 3,
                    (example_url 4)\<lparr>Loc := ''https://example.com/%zz''\<rparr>, example_url 5])
                 \<lparr>url_Parse := net_url_Parse\<rparr>)
          \<lparr>path = ''sitemap.xml'', limit = 2\<rparr> example_world = (Some URLParseError, w') \<and>
        writes w' =
          [(''./sitemap-1.xml'',
            xml_Header @ ''https://example.com/page-1'' @ [CHR 0x0A] @
              ''https://example.com/page-2'' @ [CHR 0x0A])] \<and>
        files w' ''./sitemap-2.xml'' = None \<and> files w' ''./sitemap-3.xml'' = None \<and>
        files w' ''./sitemap-index.xml'' = None"
proof -
  define us where "us = [example_url 1, example_url 2, example_url 3,
                    (example_url 4)\<lparr>Loc := ''https://example.com/%zz''\<rparr>, example_url 5]"
  define L where "L = (example_lib us)\<lparr>url_Parse := net_url_Parse\<rparr>"
  define s where "s = \<lparr>path = ''sitemap.xml'', limit = 2\<rparr>"
  let ?urlset = "\<lparr>URLSet_XMLName = zero_Name, XMLNS = [], XHTML = [], URLs = us\<rparr>"
  have rd: "ioutil_ReadFile example_world (path s) = Some ''<urlset/>''"
    by (simp add: example_world_def ioutil_ReadFile_def s_def)
  have um: "xml_Unmarshal L ''<urlset/>'' = Some ?urlset"
    by (simp add: example_lib_def L_def)
  have pos: "0 < sint (limit s)" by (simp add: s_def)
  have n: "length (URLs ?urlset) < 2 ^ 62" by (simp add: us_def)
  have b: "baseFilename_of (path s) = Inr ''sitemap''"
    unfolding s_def by code_simp
  have l: "nat (sint (limit s)) = 2" by (simp add: s_def)
  have i: "1 * nat (sint (limit s)) < length (URLs ?urlset)" by (simp add: us_def l)
  have c0: "take 2 us = [example_url 1, example_url 2]"
    and c1: "last (take 2 (drop 2 us)) = (example_url 4)\<lparr>Loc := ''https://example.com/%zz''\<rparr>"
    by (simp_all add: us_def)
  have p1: "net_url_Parse ''https://example.com/%zz'' = None" by code_simp
  have p0: "net_url_Parse (Loc (example_url 2)) \<noteq> None" by code_simp
  have d1: "decimal (Suc 0) = ''1''" "decimal 1 = ''1''" "decimal 2 = ''2''" by code_simp+
  have up: "url_Parse L = net_url_Parse" by (simp add: L_def)
  have bad: "url_Parse L
      (Loc (last (take (nat (sint (limit s))) (drop (1 * nat (sint (limit s))) (URLs ?urlset))))) = None"
    by (simp add: l c1 up p1)
  have m: "xml_MarshalIndent_URLSet L u pre ind = Some (concat (map (\<lambda>x. Loc x @ [CHR 0x0A]) (URLs u)))"
    for u pre ind
    by (simp add: L_def example_lib_def)
  have j: "filepath_Join L d f = d @ ''/'' @ f" "filepath_Dir L q = ''.''" for d f q
    by (simp_all add: L_def example_lib_def)
  have wf: "wfail example_world q r = None" "files example_world q = None \<or> q = ''sitemap.xml''"
    "writes example_world = []" for q r
    by (simp_all add: example_world_def)
  note T = Split_url_parse_error [OF rd um pos n b i bad, THEN conjunct2, THEN conjunct2]
  have g: "\<forall>j<1. url_Parse L (Loc (last (take (nat (sint (limit s)))
                (drop (j * nat (sint (limit s))) (URLs ?urlset))))) \<noteq> None \<and>
       xml_MarshalIndent_URLSet L (chunk_URLSet (take (nat (sint (limit s)))
                (drop (j * nat (sint (limit s))) (URLs ?urlset)))) [] ''  '' \<noteq> None \<and>
       wfail example_world
         (fst (filepath_Join L (filepath_Dir L (path s)) (''sitemap'' @ ''-'' @ decimal (j + 1) @ ''.xml''),
           xml_Header @ the (xml_MarshalIndent_URLSet L (chunk_URLSet (take (nat (sint (limit s)))
                (drop (j * nat (sint (limit s))) (URLs ?urlset)))) [] ''  '')))
         (snd (filepath_Join L (filepath_Dir L (path s)) (''sitemap'' @ ''-'' @ decimal (j + 1) @ ''.xml''),
           xml_Header @ the (xml_MarshalIndent_URLSet L (chunk_URLSet (take (nat (sint (limit s)))
                (drop (j * nat (sint (limit s))) (URLs ?urlset)))) [] ''  ''))) = None"
    using p0 by (simp add: l c0 m wf up)
  from mp [OF T g]
  have sp: "Split L s example_world =
      (Some URLParseError,
       example_world\<lparr>files := (files example_world)
           (''./sitemap-1.xml'' := Some (xml_Header @ ''https://example.com/page-1'' @ [CHR 0x0A] @
              ''https://example.com/page-2'' @ [CHR 0x0A])),
         writes := [(''./sitemap-1.xml'',
            xml_Header @ ''https://example.com/page-1'' @ [CHR 0x0A] @
              ''https://example.com/page-2'' @ [CHR 0x0A])],
         ticks := ticks example_world\<rparr>)"
    by (simp add: l c0 m j wf d1 chunk_URLSet_def example_url_def)
  show ?thesis
    unfolding us_def [symmetric] L_def [symmetric] s_def [symmetric]
    by (rule exI, rule conjI [OF sp]) (simp add: example_world_def)
qed

text \<open>
  C2 as stated does not hold of the string \<open>not a url\<close>: \<open>url.Parse\<close> reads it as a
  relative reference, a path with no scheme and no host, and returns no error. \<open>Split\<close> on
  a document whose only entry has this location succeeds, and writes the chunk file and
  an index whose reference is \<open>:///sitemap-1.xml\<close>.
\<close>

theorem not_a_url_counterexample:
  "net_url_Parse ''not a url'' = Some \<lparr>Scheme = [], Host = []\<rparr> \<and>
   Split ((example_lib [(example_url 1)\<lparr>Loc := ''not a url''\<rparr>])\<lparr>url_Parse := net_url_Parse\<rparr>)
     \<lparr>path = ''sitemap.xml'', limit = 10\<rparr> example_world =
   (None,
    example_world
      \<lparr>files := (files example_world)
         (''./sitemap-1.xml'' := Some (xml_Header @ ''not a url'' @ [CHR 0x0A]),
          ''./sitemap-index.xml'' := Some (xml_Header @ '':///sitemap-1.xml'' @ [CHR 0x0A])),
       writes :=
         [(''./sitemap-1.xml'', xml_Header @ ''not a url'' @ [CHR 0x0A]),
          (''./sitemap-index.xml'', xml_Header @ '':///sitemap-1.xml'' @ [CHR 0x0A])]\<rparr>)"
proof -
  have p: "net_url_Parse ''not a url'' = Some \<lparr>Scheme = [], Host = []\<rparr>" by code_simp
  have b: "baseFilename_of ''sitemap.xml'' = Inr ''sitemap''" by code_simp
  have d: "fmt_d 1 = ''1''" by code_simp
  show ?thesis
    apply (rule conjI [OF p])
    apply (simp add: Split_def example_lib_def example_world_def ioutil_ReadFile_def b Let_def)
    apply (subst split_loop.simps)
    apply (subst split_loop.simps)
    apply (simp add: loop_body_def process_chunk_def slice_def len_def word_sless_alt word_sle_eq
        Let_def p example_url_def sitemapName_of_def d baseURL_of_def chunk_URLSet_def
        os_WriteFile_def time_Now_RFC3339_def)
    done
qed

subsection \<open>Files written before an error\<close>



end
